theory Spec2Isabelle
  imports Complex_Main
begin

section \<open>JavaScript numbers and strings used by the renderer\<close>

text \<open>
  \<^verbatim>\<open>SVGGlobeRenderer.adjustColorForLand\<close> reads three two-character slices of a
  colour string with \<^verbatim>\<open>parseInt(_, 16)\<close>, multiplies each by the double constant
  \<^verbatim>\<open>0.3\<close>, floors, and prints the three numbers into a template string. A JavaScript
  number that may be \<^verbatim>\<open>NaN\<close> is an \<open>option\<close>, with \<open>None\<close> for \<^verbatim>\<open>NaN\<close>.
\<close>

definition hex_digit :: "char \<Rightarrow> nat option" where
  "hex_digit c =
     (let n = of_char c :: nat in
      if 48 \<le> n \<and> n \<le> 57 then Some (n - 48)
      else if 97 \<le> n \<and> n \<le> 102 then Some (n - 87)
      else if 65 \<le> n \<and> n \<le> 70 then Some (n - 55)
      else None)"

definition is_hex :: "char \<Rightarrow> bool" where
  "is_hex c = (hex_digit c \<noteq> None)"

definition is_white :: "char \<Rightarrow> bool" where
  "is_white c = (of_char c \<in> {9, 10, 11, 12, 13, 32 :: nat})"

text \<open>\<^verbatim>\<open>String.prototype.slice(i, j)\<close> for \<open>0 \<le> i \<le> j\<close>.\<close>

definition slice :: "string \<Rightarrow> nat \<Rightarrow> nat \<Rightarrow> string" where
  "slice s i j = take (j - i) (drop i s)"

text \<open>
  \<^verbatim>\<open>parseInt(s, 16)\<close>: leading white space is skipped, then an optional sign and an
  optional \<^verbatim>\<open>0x\<close> prefix, then the longest run of hexadecimal digits is read; with no
  digit the result is \<^verbatim>\<open>NaN\<close>.
\<close>

definition parseInt16 :: "string \<Rightarrow> int option" where
  "parseInt16 s =
     (let s1 = dropWhile is_white s;
          sgn = (case s1 of c # _ \<Rightarrow> if c = CHR ''-'' then - 1 else 1 | [] \<Rightarrow> (1 :: int));
          s2 = (case s1 of c # r \<Rightarrow> if c = CHR ''-'' \<or> c = CHR ''+'' then r else s1 | [] \<Rightarrow> s1);
          s3 = (case s2 of a # b # r \<Rightarrow>
                  if a = CHR ''0'' \<and> (b = CHR ''x'' \<or> b = CHR ''X'') then r else s2
                | _ \<Rightarrow> s2);
          ds = takeWhile is_hex s3
      in if ds = [] then None
         else Some (sgn * int (foldl (\<lambda>acc d. acc * 16 + the (hex_digit d)) 0 ds)))"

text \<open>
  The double nearest to \<^verbatim>\<open>0.3\<close> is \<open>5404319552844595 / 2^54\<close> (bit pattern
  \<^verbatim>\<open>0x3FD3333333333333\<close>). The product of an integer \<open>n\<close> with it is the exact product
  rounded to 53 significant bits, ties to even. \<open>round53\<close> rounds a non-negative integer of any
  length to 53 significant bits.
\<close>

function bitlength :: "int \<Rightarrow> nat" where
  "bitlength n = (if n \<le> 0 then 0 else Suc (bitlength (n div 2)))"
  by pat_completeness auto
termination
  by (relation "measure nat") auto

declare bitlength.simps [simp del]

definition round53 :: "int \<Rightarrow> int" where
  "round53 n =
     (let k = bitlength n in
      if k \<le> 53 then n
      else let sh = k - 53; q = n div 2 ^ sh; rm = n mod 2 ^ sh; half = 2 ^ (sh - 1)
           in (if rm < half \<or> (rm = half \<and> even q) then q else q + 1) * 2 ^ sh)"

definition times_0_3 :: "int \<Rightarrow> rat" where
  "times_0_3 n = of_int (sgn n * round53 (\<bar>n\<bar> * 5404319552844595)) / 18014398509481984"

text \<open>\<^verbatim>\<open>Math.floor(x * factor)\<close> with \<^verbatim>\<open>factor = 0.3\<close>; \<^verbatim>\<open>NaN\<close> stays \<^verbatim>\<open>NaN\<close>.\<close>

definition darken :: "int option \<Rightarrow> int option" where
  "darken x = (case x of None \<Rightarrow> None | Some n \<Rightarrow> Some \<lfloor>times_0_3 n\<rfloor>)"

text \<open>Printing an integer-valued number, as a template string does.\<close>

fun show_nat :: "nat \<Rightarrow> string" where
  "show_nat n =
     (if n < 10 then [char_of (48 + n)] else show_nat (n div 10) @ [char_of (48 + n mod 10)])"

declare show_nat.simps [simp del]

definition show_num :: "int option \<Rightarrow> string" where
  "show_num x =
     (case x of None \<Rightarrow> ''NaN''
      | Some n \<Rightarrow> if n < 0 then CHR ''-'' # show_nat (nat (- n)) else show_nat (nat n))"

definition adjustColorForLand :: "string \<Rightarrow> string" where
  "adjustColorForLand hexColor =
     (let r = parseInt16 (slice hexColor 1 3);
          g = parseInt16 (slice hexColor 3 5);
          b = parseInt16 (slice hexColor 5 7);
          newR = darken r;
          newG = darken g;
          newB = darken b
      in ''rgb('' @ show_num newR @ '', '' @ show_num newG @ '', '' @ show_num newB @ '')'')"

text \<open>The value of a two-digit hexadecimal channel.\<close>

definition channel :: "char \<Rightarrow> char \<Rightarrow> nat" where
  "channel c d = the (hex_digit c) * 16 + the (hex_digit d)"

text \<open>A six-digit hexadecimal colour: \<^verbatim>\<open>#\<close> followed by exactly six hexadecimal digits.\<close>

definition hex_color6 :: "string \<Rightarrow> bool" where
  "hex_color6 s = (length s = 7 \<and> s ! 0 = CHR ''#'' \<and> list_all is_hex (tl s))"


section \<open>The map manager: spatial index and point lookup\<close>

text \<open>
  \<^verbatim>\<open>MapManager\<close> keeps the catalogue \<^verbatim>\<open>states\<close> (state id to state data), the SVG
  elements \<^verbatim>\<open>stateElements\<close> and the grid \<^verbatim>\<open>spatialIndex\<close>. Latitudes, longitudes and
  distances are JavaScript numbers; they are modelled by exact real arithmetic, with the two
  special values that the lookup can meet, \<^verbatim>\<open>Infinity\<close> and \<^verbatim>\<open>NaN\<close>, added where the code
  can produce them. Rounding of doubles is not modelled in this part.
\<close>

record centroid =
  lat :: real
  lon :: real

typedecl jsvalue

record state =
  state_id :: string
  state_name :: string
  state_centroid :: "centroid option"
  state_owner :: "string option"
  state_color :: "string option"
  state_data :: "string \<rightharpoonup> jsvalue"

text \<open>An SVG element, as far as the manager writes to it: \<^verbatim>\<open>element.style.fill\<close>.\<close>

record element =
  style_fill :: string

text \<open>An entry of the array given to \<^verbatim>\<open>buildSpatialIndex\<close>: \<^verbatim>\<open>{ id, centroid: { lat, lon } }\<close>.\<close>

record state_datum =
  datum_id :: string
  datum_centroid :: "centroid option"

text \<open>
  The grid is a JavaScript array of \<open>cellsX * cellsY\<close> cells, each \<^verbatim>\<open>null\<close> or an array of
  state ids. It is a function from the index to the cell, \<open>None\<close> for \<^verbatim>\<open>null\<close> (and for
  \<^verbatim>\<open>undefined\<close>, which the code does not tell apart from \<^verbatim>\<open>null\<close>).
\<close>

type_synonym grid = "int \<Rightarrow> string list option"

record map_manager =
  states :: "string \<rightharpoonup> state"
  stateElements :: "string \<rightharpoonup> element"
  spatialIndex :: grid

definition cellsX :: int where
  "cellsX = 720"

definition cellsY :: int where
  "cellsY = 360"

definition gridX :: "real \<Rightarrow> int" where
  "gridX lo = \<lfloor>(lo + 180) * (real_of_int cellsX / 360)\<rfloor>"

definition gridY :: "real \<Rightarrow> int" where
  "gridY la = \<lfloor>(90 - la) * (real_of_int cellsY / 180)\<rfloor>"

definition clampX :: "int \<Rightarrow> int" where
  "clampX g = max 0 (min (cellsX - 1) g)"

definition clampY :: "int \<Rightarrow> int" where
  "clampY g = max 0 (min (cellsY - 1) g)"

definition cell_index :: "int \<Rightarrow> int \<Rightarrow> int" where
  "cell_index x y = y * cellsX + x"

text \<open>
  The body of the two nested loops of \<^verbatim>\<open>buildSpatialIndex\<close>: a \<^verbatim>\<open>null\<close> cell becomes an
  empty array first, then the id is pushed.
\<close>

definition cell_ids :: "grid \<Rightarrow> int \<Rightarrow> string list" where
  "cell_ids g index = (case g index of None \<Rightarrow> [] | Some ids \<Rightarrow> ids)"

definition push_id :: "string \<Rightarrow> grid \<Rightarrow> int \<Rightarrow> grid" where
  "push_id i g index = g(index := Some (cell_ids g index @ [i]))"

text \<open>The values of \<^verbatim>\<open>dx\<close> and of \<^verbatim>\<open>dy\<close> in \<^verbatim>\<open>for (let dx = -2; dx <= 2; dx++)\<close>.\<close>

definition offsets :: "int list" where
  "offsets = [- 2, - 1, 0, 1, 2]"

definition mark_state :: "grid \<Rightarrow> state_datum \<Rightarrow> grid" where
  "mark_state g st =
     (case datum_centroid st of
        None \<Rightarrow> g
      | Some c \<Rightarrow>
          let gX = gridX (lon c); gY = gridY (lat c)
          in foldl (\<lambda>g1 dx.
               foldl (\<lambda>g2 dy.
                 let x = clampX (gX + dx); y = clampY (gY + dy)
                 in push_id (datum_id st) g2 (cell_index x y)) g1 offsets) g offsets)"

definition buildSpatialIndex :: "map_manager \<Rightarrow> state_datum list \<Rightarrow> map_manager" where
  "buildSpatialIndex m stateData = m\<lparr>spatialIndex := foldl mark_state (\<lambda>_. None) stateData\<rparr>"

text \<open>
  The distance and the running minimum of the lookup. \<^verbatim>\<open>Math.sqrt\<close> of a negative number
  is \<^verbatim>\<open>NaN\<close>, and every comparison with \<^verbatim>\<open>NaN\<close> is false.
\<close>

datatype jsnum = Fin real | Infinity | NaN

fun js_less :: "jsnum \<Rightarrow> jsnum \<Rightarrow> bool" where
  "js_less (Fin a) (Fin b) = (a < b)"
| "js_less (Fin a) Infinity = True"
| "js_less _ _ = False"

text \<open>\<^verbatim>\<open>Math.atan2(y, x)\<close> on finite arguments.\<close>

definition atan2 :: "real \<Rightarrow> real \<Rightarrow> real" where
  "atan2 y x =
     (if 0 < x then arctan (y / x)
      else if x < 0 then (if 0 \<le> y then arctan (y / x) + pi else arctan (y / x) - pi)
      else if 0 < y then pi / 2
      else if y < 0 then - (pi / 2)
      else 0)"

definition haversineDistance :: "real \<Rightarrow> real \<Rightarrow> real \<Rightarrow> real \<Rightarrow> jsnum" where
  "haversineDistance lat1 lon1 lat2 lon2 =
     (let R = 6371;
          dLat = (lat2 - lat1) * pi / 180;
          dLon = (lon2 - lon1) * pi / 180;
          a = sin (dLat / 2) * sin (dLat / 2) +
              cos (lat1 * pi / 180) * cos (lat2 * pi / 180) *
              sin (dLon / 2) * sin (dLon / 2)
      in if a < 0 \<or> 1 - a < 0 then NaN
         else Fin (R * (2 * atan2 (sqrt a) (sqrt (1 - a)))))"

text \<open>One iteration of the candidate loop, on the pair \<^verbatim>\<open>(closest, minDist)\<close>.\<close>

definition closer ::
  "(string \<rightharpoonup> state) \<Rightarrow> real \<Rightarrow> real \<Rightarrow> state option \<times> jsnum \<Rightarrow> string \<Rightarrow> state option \<times> jsnum"
where
  "closer sts la lo acc stateId =
     (case sts stateId of
        None \<Rightarrow> acc
      | Some st \<Rightarrow>
          (case state_centroid st of
             None \<Rightarrow> acc
           | Some c \<Rightarrow>
               let dist = haversineDistance la lo (lat c) (lon c)
               in if js_less dist (snd acc) then (Some st, dist) else acc))"

definition findStateAtCoords :: "map_manager \<Rightarrow> real \<Rightarrow> real \<Rightarrow> state option" where
  "findStateAtCoords m la lo =
     (let x = clampX (gridX lo);
          y = clampY (gridY la);
          index = cell_index x y
      in case spatialIndex m index of
           None \<Rightarrow> None
         | Some candidates \<Rightarrow>
             if candidates = [] then None
             else fst (foldl (closer (states m) la lo) (None, Infinity) candidates))"

text \<open>
  The indices that \<^verbatim>\<open>buildSpatialIndex\<close> visits for a centroid, in the order of the two
  loops: the neighbourhood is taken around the home cell as computed, and each neighbour is
  clamped on its own.
\<close>

definition neighbourhood :: "centroid \<Rightarrow> int list" where
  "neighbourhood c =
     concat (map (\<lambda>dx. map (\<lambda>dy.
       cell_index (clampX (gridX (lon c) + dx)) (clampY (gridY (lat c) + dy))) offsets) offsets)"

text \<open>What the build pushes into the cell \<open>j\<close>, in order, for a whole input array.\<close>

definition pushed :: "state_datum list \<Rightarrow> int \<Rightarrow> string list" where
  "pushed stateData j =
     concat (map (\<lambda>st. case datum_centroid st of
                          None \<Rightarrow> []
                        | Some c \<Rightarrow> replicate (count_list (neighbourhood c) j) (datum_id st))
                 stateData)"

text \<open>
  The great-circle distance as a real number, and the candidates of a cell that the lookup
  compares: those whose id is in the catalogue with a centroid, each with that centroid.
\<close>

definition hav :: "real \<Rightarrow> real \<Rightarrow> real \<Rightarrow> real \<Rightarrow> real" where
  "hav lat1 lon1 lat2 lon2 =
     sin ((lat2 - lat1) * pi / 180 / 2) * sin ((lat2 - lat1) * pi / 180 / 2) +
     cos (lat1 * pi / 180) * cos (lat2 * pi / 180) *
     sin ((lon2 - lon1) * pi / 180 / 2) * sin ((lon2 - lon1) * pi / 180 / 2)"

definition great_circle :: "real \<Rightarrow> real \<Rightarrow> centroid \<Rightarrow> real" where
  "great_circle la lo c =
     6371 * (2 * atan2 (sqrt (hav la lo (lat c) (lon c))) (sqrt (1 - hav la lo (lat c) (lon c))))"

definition resolved :: "(string \<rightharpoonup> state) \<Rightarrow> string list \<Rightarrow> (state \<times> centroid) list" where
  "resolved sts ids =
     concat (map (\<lambda>i. case sts i of
                         None \<Rightarrow> []
                       | Some st \<Rightarrow> (case state_centroid st of None \<Rightarrow> [] | Some c \<Rightarrow> [(st, c)]))
                 ids)"

text \<open>The candidate loop restricted to the candidates it compares.\<close>

definition nearer ::
  "real \<Rightarrow> real \<Rightarrow> state option \<times> jsnum \<Rightarrow> state \<times> centroid \<Rightarrow> state option \<times> jsnum"
where
  "nearer la lo acc p =
     (if js_less (Fin (great_circle la lo (snd p))) (snd acc)
      then (Some (fst p), Fin (great_circle la lo (snd p))) else acc)"

text \<open>
  The reading of the build in which the home cell is clamped first and the 5 by 5
  neighbourhood is taken around the clamped home cell. It is stated here to be compared with
  \<open>neighbourhood\<close>, which is what the loops of the source visit.
\<close>

definition clamped_home_neighbourhood :: "centroid \<Rightarrow> int list" where
  "clamped_home_neighbourhood c =
     concat (map (\<lambda>dx. map (\<lambda>dy.
       cell_index (clampX (clampX (gridX (lon c)) + dx))
                  (clampY (clampY (gridY (lat c)) + dy))) offsets) offsets)"

text \<open>A manager as the constructor leaves it, and three states used as concrete inputs.\<close>

definition new_manager :: map_manager where
  "new_manager = \<lparr>states = Map.empty, stateElements = Map.empty, spatialIndex = (\<lambda>_. None)\<rparr>"

definition mk_state :: "string \<Rightarrow> centroid option \<Rightarrow> state" where
  "mk_state i c =
     \<lparr>state_id = i, state_name = i, state_centroid = c, state_owner = None,
      state_color = None, state_data = Map.empty\<rparr>"

definition mk_datum :: "string \<Rightarrow> centroid option \<Rightarrow> state_datum" where
  "mk_datum i c = \<lparr>datum_id = i, datum_centroid = c\<rparr>"

text \<open>
  A catalogue of three states, \<open>A\<close> at (10, 10), \<open>B\<close> at (-10, -10) and \<open>C\<close> without a
  centroid, with the centroid list made from it; and a catalogue whose only state has no
  centroid of its own while the centroid list supplies one.
\<close>

definition catalogue_ABC :: map_manager where
  "catalogue_ABC =
     new_manager\<lparr>states :=
       [''A'' \<mapsto> mk_state ''A'' (Some \<lparr>lat = 10, lon = 10\<rparr>),
        ''B'' \<mapsto> mk_state ''B'' (Some \<lparr>lat = - 10, lon = - 10\<rparr>),
        ''C'' \<mapsto> mk_state ''C'' None]\<rparr>"

definition centroids_ABC :: "state_datum list" where
  "centroids_ABC =
     [mk_datum ''A'' (Some \<lparr>lat = 10, lon = 10\<rparr>),
      mk_datum ''B'' (Some \<lparr>lat = - 10, lon = - 10\<rparr>),
      mk_datum ''C'' None]"

definition catalogue_bare :: map_manager where
  "catalogue_bare = new_manager\<lparr>states := [''A'' \<mapsto> mk_state ''A'' None]\<rparr>"

definition setStateColor :: "map_manager \<Rightarrow> string \<Rightarrow> string \<Rightarrow> map_manager" where
  "setStateColor m stateId col =
     (case stateElements m stateId of
        None \<Rightarrow> m
      | Some el \<Rightarrow>
          let m1 = m\<lparr>stateElements := (stateElements m)(stateId \<mapsto> el\<lparr>style_fill := col\<rparr>)\<rparr>
          in (case states m1 stateId of
                None \<Rightarrow> m1
              | Some st \<Rightarrow> m1\<lparr>states := (states m1)(stateId \<mapsto> st\<lparr>state_color := Some col\<rparr>)\<rparr>))"

text \<open>\<^verbatim>\<open>Object.assign(state.data, data)\<close> copies the entries of \<open>data\<close> over those of the state.\<close>

definition updateStateData :: "map_manager \<Rightarrow> string \<Rightarrow> (string \<rightharpoonup> jsvalue) \<Rightarrow> map_manager" where
  "updateStateData m stateId d =
     (case states m stateId of
        None \<Rightarrow> m
      | Some st \<Rightarrow> m\<lparr>states := (states m)(stateId \<mapsto> st\<lparr>state_data := state_data st ++ d\<rparr>)\<rparr>)"

section \<open>The globe renderer: regions, canvas and rendering\<close>

text \<open>
  \<^verbatim>\<open>SVGGlobeRenderer\<close> keeps its regions in a \<^verbatim>\<open>Map\<close> from region id to a region object,
  in insertion order: an association list, read with \<open>map_of\<close>. The fields \<^verbatim>\<open>scene\<close>,
  \<^verbatim>\<open>camera\<close>, \<^verbatim>\<open>globe\<close> of the renderer and \<^verbatim>\<open>pathElement\<close> of a region are never read by
  the functions below and are left out. An owner or a path that is \<^verbatim>\<open>null\<close> is \<open>None\<close>.
\<close>

record region =
  region_id :: string
  region_name :: string
  pathData :: "string option"
  owner :: "string option"
  originalFill :: string
  className :: string
  selected :: bool
  region_data :: "string \<rightharpoonup> jsvalue"

record theme =
  ocean :: string
  land :: string
  border :: string
  borderWidth :: real
  selectedBorder :: string
  selectedBorderWidth :: real

datatype error = TypeError | SyntaxError

text \<open>
  The 2D context of the texture canvas. A fill or stroke style is a colour string or a linear
  gradient with its colour stops. The state that drawing depends on is the two styles, the
  line width, the transformation (the scalings applied so far), the stack of saved states
  and the current path, whose points are recorded with the transformation in force when they
  were added. \<open>painted\<close> is the sequence of paint operations that have reached the pixel
  buffer, each with the style, width and transformation in force when it was issued: the
  pixel buffer is what the browser makes of this sequence. \<open>parses\<close> says which strings the
  browser accepts as colours: assigning any other string to a style is ignored, and giving it
  to \<^verbatim>\<open>addColorStop\<close> throws. Coordinates are exact reals.
\<close>

datatype gradient = LinearGradient real real real real "(real \<times> string) list"

datatype style = Color string | Gradient gradient

datatype segment = MoveTo real real | LineTo real real | ClosePath

type_synonym transform = "(real \<times> real) list"

datatype paint =
    FillRect style transform real real real real
  | FillPath style transform string
  | StrokePath style real transform string
  | FillCurrent style transform "(transform \<times> segment) list"
  | StrokeCurrent style real transform "(transform \<times> segment) list"

record context2d =
  parses :: "string \<Rightarrow> bool"
  fillStyle :: style
  strokeStyle :: style
  lineWidth :: real
  transform :: transform
  saved :: "(style \<times> style \<times> real \<times> transform) list"
  currentPath :: "(transform \<times> segment) list"
  painted :: "paint list"

definition set_fillStyle :: "style \<Rightarrow> context2d \<Rightarrow> context2d" where
  "set_fillStyle v c =
     (case v of
        Color col \<Rightarrow> if parses c col then c\<lparr>fillStyle := v\<rparr> else c
      | Gradient _ \<Rightarrow> c\<lparr>fillStyle := v\<rparr>)"

definition set_strokeStyle :: "style \<Rightarrow> context2d \<Rightarrow> context2d" where
  "set_strokeStyle v c =
     (case v of
        Color col \<Rightarrow> if parses c col then c\<lparr>strokeStyle := v\<rparr> else c
      | Gradient _ \<Rightarrow> c\<lparr>strokeStyle := v\<rparr>)"

definition set_lineWidth :: "real \<Rightarrow> context2d \<Rightarrow> context2d" where
  "set_lineWidth w c = (if 0 < w then c\<lparr>lineWidth := w\<rparr> else c)"

definition fillRect :: "real \<Rightarrow> real \<Rightarrow> real \<Rightarrow> real \<Rightarrow> context2d \<Rightarrow> context2d" where
  "fillRect x y w h c = c\<lparr>painted := painted c @ [FillRect (fillStyle c) (transform c) x y w h]\<rparr>"

definition save :: "context2d \<Rightarrow> context2d" where
  "save c = c\<lparr>saved := (fillStyle c, strokeStyle c, lineWidth c, transform c) # saved c\<rparr>"

definition restore :: "context2d \<Rightarrow> context2d" where
  "restore c =
     (case saved c of
        [] \<Rightarrow> c
      | (f, s, w, t) # rest \<Rightarrow>
          c\<lparr>fillStyle := f, strokeStyle := s, lineWidth := w, transform := t, saved := rest\<rparr>)"

text \<open>\<^verbatim>\<open>ctx.scale(x, y)\<close> does nothing when an argument is not finite.\<close>

definition scale :: "jsnum \<Rightarrow> jsnum \<Rightarrow> context2d \<Rightarrow> context2d" where
  "scale sx sy c =
     (case (sx, sy) of
        (Fin a, Fin b) \<Rightarrow> c\<lparr>transform := transform c @ [(a, b)]\<rparr>
      | _ \<Rightarrow> c)"

text \<open>\<^verbatim>\<open>ctx.fill(path)\<close> and \<^verbatim>\<open>ctx.stroke(path)\<close> with \<^verbatim>\<open>path = new Path2D(d)\<close>.\<close>

definition fill_path :: "string \<Rightarrow> context2d \<Rightarrow> context2d" where
  "fill_path d c = c\<lparr>painted := painted c @ [FillPath (fillStyle c) (transform c) d]\<rparr>"

definition stroke_path :: "string \<Rightarrow> context2d \<Rightarrow> context2d" where
  "stroke_path d c =
     c\<lparr>painted := painted c @ [StrokePath (strokeStyle c) (lineWidth c) (transform c) d]\<rparr>"

definition beginPath :: "context2d \<Rightarrow> context2d" where
  "beginPath c = c\<lparr>currentPath := []\<rparr>"

definition moveTo :: "real \<Rightarrow> real \<Rightarrow> context2d \<Rightarrow> context2d" where
  "moveTo x y c = c\<lparr>currentPath := currentPath c @ [(transform c, MoveTo x y)]\<rparr>"

definition lineTo :: "real \<Rightarrow> real \<Rightarrow> context2d \<Rightarrow> context2d" where
  "lineTo x y c = c\<lparr>currentPath := currentPath c @ [(transform c, LineTo x y)]\<rparr>"

definition closePath :: "context2d \<Rightarrow> context2d" where
  "closePath c = c\<lparr>currentPath := currentPath c @ [(transform c, ClosePath)]\<rparr>"

definition fill_current :: "context2d \<Rightarrow> context2d" where
  "fill_current c =
     c\<lparr>painted := painted c @ [FillCurrent (fillStyle c) (transform c) (currentPath c)]\<rparr>"

definition stroke_current :: "context2d \<Rightarrow> context2d" where
  "stroke_current c =
     c\<lparr>painted := painted c @
        [StrokeCurrent (strokeStyle c) (lineWidth c) (transform c) (currentPath c)]\<rparr>"

text \<open>
  \<^verbatim>\<open>createLinearGradient\<close>, and a run of \<^verbatim>\<open>addColorStop\<close> calls on one gradient, which
  throws at the first colour that does not parse; the offsets used are all in \<open>[0, 1]\<close>.
\<close>

definition createLinearGradient :: "real \<Rightarrow> real \<Rightarrow> real \<Rightarrow> real \<Rightarrow> gradient" where
  "createLinearGradient x0 y0 x1 y1 = LinearGradient x0 y0 x1 y1 []"

fun addColorStops :: "context2d \<Rightarrow> (real \<times> string) list \<Rightarrow> gradient \<Rightarrow> error + gradient" where
  "addColorStops c [] g = Inr g"
| "addColorStops c ((off, col) # rest) (LinearGradient x0 y0 x1 y1 stops) =
     (if parses c col then addColorStops c rest (LinearGradient x0 y0 x1 y1 (stops @ [(off, col)]))
      else Inl SyntaxError)"

record canvas =
  width :: nat
  height :: nat
  ctx :: context2d

text \<open>
  The parsed SVG document, as far as rendering reads it: whether it has an \<^verbatim>\<open>svg\<close> element,
  and the numbers of that element's \<^verbatim>\<open>viewBox\<close> attribute after \<^verbatim>\<open>split(' ').map(Number)\<close>,
  \<open>None\<close> when the attribute is absent.
\<close>

record svg_element =
  viewBox :: "jsnum list option"

record svg_doc =
  svg :: "svg_element option"

text \<open>
  \<open>texture\<close> is the \<^verbatim>\<open>needsUpdate\<close> flag of the texture, \<open>None\<close> while there is no texture.
  \<open>ownerColors\<close> is the object's own properties; what it inherits is not modelled.
\<close>

record renderer =
  regions :: "(string \<times> region) list"
  svgDoc :: "svg_doc option"
  textureCanvas :: "canvas option"
  texture :: "bool option"
  ownerColors :: "string \<rightharpoonup> string"
  theme :: theme

text \<open>
  An array element that may be missing, used as a divisor: \<^verbatim>\<open>undefined\<close> behaves as
  \<^verbatim>\<open>NaN\<close>. The signs of zero and of infinity are not told apart.
\<close>

definition js_nth :: "jsnum list \<Rightarrow> nat \<Rightarrow> jsnum" where
  "js_nth xs n = (if n < length xs then xs ! n else NaN)"

definition js_div :: "real \<Rightarrow> jsnum \<Rightarrow> jsnum" where
  "js_div a d =
     (case d of
        Fin x \<Rightarrow> if x = 0 then (if a = 0 then NaN else Infinity) else Fin (a / x)
      | Infinity \<Rightarrow> Fin 0
      | NaN \<Rightarrow> NaN)"

text \<open>Truthiness of a string that may be \<^verbatim>\<open>null\<close> or \<^verbatim>\<open>undefined\<close>.\<close>

definition truthy :: "string option \<Rightarrow> bool" where
  "truthy v = (case v of None \<Rightarrow> False | Some t \<Rightarrow> t \<noteq> [])"

definition renderRegion :: "renderer \<Rightarrow> context2d \<Rightarrow> region \<Rightarrow> context2d" where
  "renderRegion s c r =
     (if \<not> truthy (pathData r) then c
      else
        let d = the (pathData r);
            fillColor =
              (if truthy (owner r) \<and> truthy (ownerColors s (the (owner r)))
               then adjustColorForLand (the (ownerColors s (the (owner r))))
               else land (theme s));
            c1 = fill_path d (set_fillStyle (Color fillColor) c);
            c2 = set_strokeStyle
                   (Color (if selected r then selectedBorder (theme s) else border (theme s))) c1;
            c3 = set_lineWidth
                   (if selected r then selectedBorderWidth (theme s) else borderWidth (theme s)) c2
        in stroke_path d c3)"

text \<open>
  The ice edge is drawn with \<^verbatim>\<open>for (let x = 0; x <= width; x += 40)\<close>; the canvas width is a
  natural number, so \<open>x\<close> takes the values \<open>40 * k\<close> for \<open>k\<close> up to \<open>width div 40\<close>.
\<close>

definition ice_edge :: "nat \<Rightarrow> real \<Rightarrow> context2d \<Rightarrow> context2d" where
  "ice_edge w h c =
     foldl (\<lambda>c1 k. lineTo (real (40 * k))
                     (h * 0.08 + sin (real (40 * k) * 0.015) * 12 + sin (real (40 * k) * 0.03) * 8)
                     c1)
           c [0..<w div 40 + 1]"

definition northCapGradient :: "real \<Rightarrow> context2d \<Rightarrow> error + gradient" where
  "northCapGradient h c =
     addColorStops c
       [(0, ''rgba(180, 200, 230, 0.95)''), (0.5, ''rgba(150, 180, 210, 0.7)''),
        (1, ''rgba(100, 140, 180, 0)'')]
       (createLinearGradient 0 0 0 (h * 0.15))"

definition southCapGradient :: "real \<Rightarrow> context2d \<Rightarrow> error + gradient" where
  "southCapGradient h c =
     addColorStops c
       [(0, ''rgba(200, 220, 240, 0.9)''), (1, ''rgba(150, 180, 210, 0)'')]
       (createLinearGradient 0 h 0 (h * 0.92))"

text \<open>The north cap, once its gradient is made: the gradient band, then the irregular ice edge.\<close>

definition north_cap :: "nat \<Rightarrow> nat \<Rightarrow> gradient \<Rightarrow> context2d \<Rightarrow> context2d" where
  "north_cap wn hn north c =
     (let w = real wn; h = real hn;
          c1 = fillRect 0 0 w (h * 0.15) (set_fillStyle (Gradient north) c);
          c2 = set_fillStyle (Color ''rgba(200, 220, 240, 0.8)'') c1;
          c3 = moveTo 0 (h * 0.08) (beginPath c2);
          c4 = ice_edge wn h c3
      in fill_current (closePath (lineTo 0 0 (lineTo w 0 c4))))"

definition addIceCaps :: "nat \<Rightarrow> nat \<Rightarrow> context2d \<Rightarrow> context2d \<times> error option" where
  "addIceCaps wn hn c =
     (case northCapGradient (real hn) c of
        Inl e \<Rightarrow> (c, Some e)
      | Inr north \<Rightarrow>
          let c5 = north_cap wn hn north c
          in case southCapGradient (real hn) c5 of
               Inl e \<Rightarrow> (c5, Some e)
             | Inr south \<Rightarrow>
                 (fillRect 0 (real hn * 0.92) (real wn) (real hn * 0.08)
                    (set_fillStyle (Gradient south) c5), None))"

definition addGridLines :: "nat \<Rightarrow> nat \<Rightarrow> context2d \<Rightarrow> context2d" where
  "addGridLines wn hn c =
     (let w = real wn; h = real hn;
          c1 = set_lineWidth 1 (set_strokeStyle (Color ''rgba(0, 255, 136, 0.1)'') c);
          c2 = foldl (\<lambda>c i. stroke_current
                        (lineTo w (real i * (h / 18)) (moveTo 0 (real i * (h / 18)) (beginPath c))))
                 c1 [0..<19]
      in foldl (\<lambda>c i. stroke_current
                  (lineTo (real i * (w / 36)) h (moveTo (real i * (w / 36)) 0 (beginPath c))))
           c2 [0..<37])"

text \<open>The outlines of \<^verbatim>\<open>renderFallbackMap\<close>, as fractions of the width and the height.\<close>

definition continents :: "(real \<times> real) list list" where
  "continents =
     [[(0.1, 0.15), (0.25, 0.1), (0.3, 0.2), (0.27, 0.4), (0.17, 0.45), (0.07, 0.3)],
      [(0.2, 0.5), (0.25, 0.48), (0.26, 0.7), (0.22, 0.85), (0.17, 0.8), (0.19, 0.6)],
      [(0.45, 0.12), (0.55, 0.1), (0.57, 0.2), (0.55, 0.3), (0.47, 0.28), (0.44, 0.18)],
      [(0.45, 0.35), (0.55, 0.32), (0.57, 0.5), (0.52, 0.7), (0.45, 0.68), (0.42, 0.5)],
      [(0.57, 0.1), (0.8, 0.08), (0.85, 0.2), (0.82, 0.4), (0.7, 0.45), (0.6, 0.35), (0.55, 0.2)],
      [(0.75, 0.6), (0.82, 0.58), (0.85, 0.7), (0.8, 0.78), (0.74, 0.75)]]"

definition draw_continent :: "real \<Rightarrow> real \<Rightarrow> context2d \<Rightarrow> (real \<times> real) list \<Rightarrow> context2d" where
  "draw_continent w h c pts =
     (let c1 = moveTo (fst (hd pts) * w) (snd (hd pts) * h) (beginPath c);
          c2 = foldl (\<lambda>c p. lineTo (fst p * w) (snd p * h) c) c1 pts
      in stroke_current (fill_current (closePath c2)))"

definition fallback_continents :: "renderer \<Rightarrow> nat \<Rightarrow> nat \<Rightarrow> context2d \<Rightarrow> context2d" where
  "fallback_continents s wn hn c =
     (let w = real wn; h = real hn;
          c1 = fillRect 0 0 w h (set_fillStyle (Color (ocean (theme s))) c);
          c2 = set_lineWidth 2
                 (set_strokeStyle (Color (border (theme s)))
                   (set_fillStyle (Color (land (theme s))) c1))
      in foldl (draw_continent w h) c2 continents)"

definition renderFallbackMap :: "renderer \<Rightarrow> nat \<Rightarrow> nat \<Rightarrow> context2d \<Rightarrow> context2d \<times> error option" where
  "renderFallbackMap s wn hn c =
     (case addIceCaps wn hn (fallback_continents s wn hn c) of
        (c4, Some e) \<Rightarrow> (c4, Some e)
      | (c4, None) \<Rightarrow> (addGridLines wn hn c4, None))"

text \<open>
  A call returns the renderer it leaves behind together with the exception it threw, if any:
  what was changed before a \<^verbatim>\<open>throw\<close> stays changed.
\<close>

definition with_ctx :: "renderer \<Rightarrow> canvas \<Rightarrow> context2d \<Rightarrow> renderer" where
  "with_ctx s cv c = s\<lparr>textureCanvas := Some (cv\<lparr>ctx := c\<rparr>)\<rparr>"

text \<open>
  The part of \<^verbatim>\<open>renderToCanvas\<close> between \<^verbatim>\<open>ctx.save()\<close> and \<^verbatim>\<open>ctx.restore()\<close>: the scale
  factors from the view box, and every region in the order of the \<^verbatim>\<open>Map\<close>.
\<close>

definition render_regions :: "renderer \<Rightarrow> canvas \<Rightarrow> svg_element \<Rightarrow> context2d \<Rightarrow> context2d" where
  "render_regions s cv svgElement c =
     (let vb = (case viewBox svgElement of
                  None \<Rightarrow> [Fin 0, Fin 0, Fin 2000, Fin 1000]
                | Some v \<Rightarrow> v);
          svgWidth = js_nth vb 2;
          svgHeight = js_nth vb 3;
          scaleX = js_div (real (width cv)) svgWidth;
          scaleY = js_div (real (height cv)) svgHeight;
          c2 = scale scaleX scaleY (save c);
          c3 = foldl (renderRegion s) c2 (map snd (regions s))
      in restore c3)"

definition renderToCanvas :: "renderer \<Rightarrow> renderer \<times> error option" where
  "renderToCanvas s =
     (case textureCanvas s of
        None \<Rightarrow> (s, Some TypeError)
      | Some cv \<Rightarrow>
          let c1 = fillRect 0 0 (real (width cv)) (real (height cv))
                     (set_fillStyle (Color (ocean (theme s))) (ctx cv))
          in case svgDoc s of
               None \<Rightarrow>
                 (case renderFallbackMap s (width cv) (height cv) c1 of
                    (c2, e) \<Rightarrow> (with_ctx s cv c2, e))
             | Some doc \<Rightarrow>
                 (case svg doc of
                    None \<Rightarrow> (with_ctx s cv c1, Some TypeError)
                  | Some svgElement \<Rightarrow>
                      (case addIceCaps (width cv) (height cv) (render_regions s cv svgElement c1) of
                         (c5, Some e) \<Rightarrow> (with_ctx s cv c5, Some e)
                       | (c5, None) \<Rightarrow>
                           ((with_ctx s cv (addGridLines (width cv) (height cv) c5))
                              \<lparr>texture := map_option (\<lambda>_. True) (texture s)\<rparr>, None))))"

text \<open>Changing the region stored under a key, as a write to a field of that object does.\<close>

fun modify :: "string \<Rightarrow> (region \<Rightarrow> region) \<Rightarrow> (string \<times> region) list \<Rightarrow> (string \<times> region) list" where
  "modify k f [] = []"
| "modify k f ((k', r) # rs) = (if k = k' then (k', f r) # rs else (k', r) # modify k f rs)"

definition setRegionOwner :: "renderer \<Rightarrow> string \<Rightarrow> string option \<Rightarrow> renderer \<times> error option" where
  "setRegionOwner s regionId ow =
     (case map_of (regions s) regionId of
        None \<Rightarrow> (s, None)
      | Some r \<Rightarrow> renderToCanvas (s\<lparr>regions := modify regionId (\<lambda>r. r\<lparr>owner := ow\<rparr>) (regions s)\<rparr>))"

definition deselect_all :: "(string \<times> region) list \<Rightarrow> (string \<times> region) list" where
  "deselect_all rs = map (\<lambda>(k, r). (k, r\<lparr>selected := False\<rparr>)) rs"

definition selectRegion :: "renderer \<Rightarrow> string \<Rightarrow> renderer \<times> (error + region option)" where
  "selectRegion s regionId =
     (let s1 = s\<lparr>regions := deselect_all (regions s)\<rparr>
      in case map_of (regions s1) regionId of
           None \<Rightarrow> (s1, Inr None)
         | Some r \<Rightarrow>
             (case renderToCanvas
                     (s1\<lparr>regions := modify regionId (\<lambda>r. r\<lparr>selected := True\<rparr>) (regions s1)\<rparr>) of
                (s2, Some e) \<Rightarrow> (s2, Inl e)
              | (s2, None) \<Rightarrow> (s2, Inr (Some (r\<lparr>selected := True\<rparr>)))))"

text \<open>A sequence of selection calls, and the number of regions whose flag is set.\<close>

definition select_each :: "renderer \<Rightarrow> string list \<Rightarrow> renderer" where
  "select_each s ids = foldl (\<lambda>s i. fst (selectRegion s i)) s ids"

definition selected_count :: "renderer \<Rightarrow> nat" where
  "selected_count s = length (filter (\<lambda>kr. selected (snd kr)) (regions s))"

text \<open>
  The constants of the constructor, the canvas and context that \<^verbatim>\<open>createGlobe\<close> makes, and
  the region object that \<^verbatim>\<open>loadSVG\<close> makes for a path.
\<close>

definition default_theme :: theme where
  "default_theme =
     \<lparr>ocean = ''#0a1520'', land = ''#152520'', border = ''#00ff88'', borderWidth = 1,
      selectedBorder = ''#ffffff'', selectedBorderWidth = 3\<rparr>"

definition default_ownerColors :: "string \<rightharpoonup> string" where
  "default_ownerColors =
     [''player'' \<mapsto> ''#00ff88'', ''ally'' \<mapsto> ''#00aaff'', ''neutral'' \<mapsto> ''#888888'',
      ''hostile'' \<mapsto> ''#ff4444'', ''contested'' \<mapsto> ''#ffaa00'', ''unoccupied'' \<mapsto> ''#2a3a2a'']"

definition new_context :: "(string \<Rightarrow> bool) \<Rightarrow> context2d" where
  "new_context p =
     \<lparr>parses = p, fillStyle = Color ''#000000'', strokeStyle = Color ''#000000'', lineWidth = 1,
      transform = [], saved = [], currentPath = [], painted = []\<rparr>"

definition loaded_region :: "string \<Rightarrow> string option \<Rightarrow> region" where
  "loaded_region i d =
     \<lparr>region_id = i, region_name = i, pathData = d, owner = Some ''unoccupied'',
      originalFill = ''#cccccc'', className = [], selected = False, region_data = Map.empty\<rparr>"

text \<open>
  A colour parser that accepts six-digit hexadecimal colours and the \<^verbatim>\<open>rgb(\<close> and
  \<^verbatim>\<open>rgba(\<close> notations, used for concrete contexts.
\<close>

definition css_colour :: "string \<Rightarrow> bool" where
  "css_colour t = (hex_color6 t \<or> take 4 t = ''rgb('' \<or> take 5 t = ''rgba('')"

definition globe_AB :: renderer where
  "globe_AB =
     \<lparr>regions = [(''A'', loaded_region ''A'' (Some ''M0 0L10 0L10 10Z'')),
                 (''B'', loaded_region ''B'' (Some ''M20 0L30 0L30 10Z''))],
      svgDoc = Some \<lparr>svg = Some \<lparr>viewBox = None\<rparr>\<rparr>,
      textureCanvas = Some \<lparr>width = 2048, height = 1024, ctx = new_context css_colour\<rparr>,
      texture = Some False,
      ownerColors = default_ownerColors,
      theme = default_theme\<rparr>"

definition globe_A_selected :: renderer where
  "globe_A_selected =
     globe_AB\<lparr>regions := [(''A'', (loaded_region ''A'' (Some ''M0 0L10 0L10 10Z''))\<lparr>selected := True\<rparr>),
                            (''B'', loaded_region ''B'' (Some ''M20 0L30 0L30 10Z''))]\<rparr>"

text \<open>
  The same globe after other drawing: other styles, line width, saved states, current path
  and earlier paint operations in the context, no texture, and other names for the regions.
\<close>

definition globe_AB_used :: renderer where
  "globe_AB_used =
     globe_AB
       \<lparr>regions := [(''A'', (loaded_region ''A'' (Some ''M0 0L10 0L10 10Z''))\<lparr>region_name := ''Alpha''\<rparr>),
                    (''B'', (loaded_region ''B'' (Some ''M20 0L30 0L30 10Z''))\<lparr>region_name := ''Beta''\<rparr>)],
        textureCanvas := Some \<lparr>width = 2048, height = 1024,
          ctx = (new_context css_colour)
            \<lparr>fillStyle := Color ''#ff0000'', strokeStyle := Color ''#0000ff'', lineWidth := 7,
             saved := [(Color ''#123456'', Color ''#654321'', 2, [])],
             currentPath := [([], MoveTo 1 1)],
             painted := [FillRect (Color ''#ff0000'') [] 0 0 1 1]\<rparr>\<rparr>,
        texture := None\<rparr>"

text \<open>
  What rendering reads of a region, and what one call of \<^verbatim>\<open>renderToCanvas\<close> adds to the
  paint sequence of the canvas.
\<close>

definition drawn_fields :: "region \<Rightarrow> string option \<times> string option \<times> bool" where
  "drawn_fields r = (pathData r, owner r, selected r)"

definition canvas_painted :: "renderer \<Rightarrow> paint list" where
  "canvas_painted s = (case textureCanvas s of None \<Rightarrow> [] | Some cv \<Rightarrow> painted (ctx cv))"

definition emitted :: "renderer \<Rightarrow> paint list" where
  "emitted s = drop (length (canvas_painted s)) (canvas_painted (fst (renderToCanvas s)))"

text \<open>
  Two renderers have the same inputs of a render when they agree on the geometry, owner and
  selection flag of every region in order, on the palette, on the document and on the
  canvas: its size, the colour parser and the transformation of its context. Nothing is asked
  of the styles, the line width, the saved states, the current path or the earlier paint
  operations of the context, nor of the texture flag.
\<close>

definition same_canvas :: "canvas option \<Rightarrow> canvas option \<Rightarrow> bool" where
  "same_canvas a b =
     (case (a, b) of
        (None, None) \<Rightarrow> True
      | (Some cv, Some cv') \<Rightarrow>
          width cv = width cv' \<and> height cv = height cv' \<and>
          parses (ctx cv) = parses (ctx cv') \<and> transform (ctx cv) = transform (ctx cv')
      | _ \<Rightarrow> False)"

definition same_inputs :: "renderer \<Rightarrow> renderer \<Rightarrow> bool" where
  "same_inputs s s' \<longleftrightarrow>
     map (\<lambda>kr. drawn_fields (snd kr)) (regions s) = map (\<lambda>kr. drawn_fields (snd kr)) (regions s') \<and>
     theme s = theme s' \<and> ownerColors s = ownerColors s' \<and> svgDoc s = svgDoc s' \<and>
     same_canvas (textureCanvas s) (textureCanvas s')"

text \<open>
  The palette is one of colours: the browser parses the ocean and border colours and the
  colour of the grid lines, and the border widths are positive.
\<close>

definition well_themed :: "theme \<Rightarrow> context2d \<Rightarrow> bool" where
  "well_themed th c \<longleftrightarrow>
     parses c (ocean th) \<and> parses c (border th) \<and> parses c (selectedBorder th) \<and>
     0 < borderWidth th \<and> 0 < selectedBorderWidth th \<and> parses c ''rgba(0, 255, 136, 0.1)''"

definition themed :: "renderer \<Rightarrow> bool" where
  "themed s = (case textureCanvas s of None \<Rightarrow> True | Some cv \<Rightarrow> well_themed (theme s) (ctx cv))"

text \<open>
  Two contexts agree, relative to two starting contexts, when they have the same parser and
  transformation and have painted the same operations since the start. The tops of their
  stacks agree when each has a saved state and these hold the same fill style and
  transformation.
\<close>

definition agree :: "context2d \<Rightarrow> context2d \<Rightarrow> context2d \<Rightarrow> context2d \<Rightarrow> bool" where
  "agree c0 c0' c c' \<longleftrightarrow>
     parses c = parses c' \<and> transform c = transform c' \<and>
     (\<exists>e. painted c = painted c0 @ e \<and> painted c' = painted c0' @ e)"

definition top_agree :: "context2d \<Rightarrow> context2d \<Rightarrow> bool" where
  "top_agree c c' \<longleftrightarrow>
     saved c \<noteq> [] \<and> saved c' \<noteq> [] \<and>
     fst (hd (saved c)) = fst (hd (saved c')) \<and>
     snd (snd (snd (hd (saved c)))) = snd (snd (snd (hd (saved c'))))"

text \<open>
  Agreement together with agreement on some of the state that drawing reads: the fill style,
  the stroke style, the line width, the current path, and the top of the stack of saved
  states, each asked for when its flag is set.
\<close>

definition sim ::
  "bool \<Rightarrow> bool \<Rightarrow> bool \<Rightarrow> bool \<Rightarrow> bool \<Rightarrow>
   context2d \<Rightarrow> context2d \<Rightarrow> context2d \<Rightarrow> context2d \<Rightarrow> bool"
where
  "sim f s w p k c0 c0' c c' \<longleftrightarrow>
     agree c0 c0' c c' \<and>
     (f \<longrightarrow> fillStyle c = fillStyle c') \<and>
     (s \<longrightarrow> strokeStyle c = strokeStyle c') \<and>
     (w \<longrightarrow> lineWidth c = lineWidth c') \<and>
     (p \<longrightarrow> currentPath c = currentPath c') \<and>
     (k \<longrightarrow> top_agree c c')"

section \<open>Land-fill colour derivation\<close>

lemma hex_digit_lt_16: "hex_digit c = Some v \<Longrightarrow> v < 16"
  by (auto simp: hex_digit_def Let_def split: if_splits)

lemma is_hex_not_special:
  assumes "is_hex c"
  shows "\<not> is_white c" "c \<noteq> CHR ''-''" "c \<noteq> CHR ''+''" "c \<noteq> CHR ''x''" "c \<noteq> CHR ''X''"
  using assms by (auto simp: is_hex_def is_white_def hex_digit_def Let_def split: if_splits)

lemma parseInt16_two_digits:
  assumes "is_hex c" "is_hex d"
  shows "parseInt16 [c, d] = Some (int (channel c d))"
  using assms is_hex_not_special [OF assms(1)] is_hex_not_special [OF assms(2)]
  by (simp add: parseInt16_def channel_def)

lemma channel_lt_256:
  assumes "is_hex c" "is_hex d"
  shows "channel c d < 256"
proof -
  obtain v w where "hex_digit c = Some v" "hex_digit d = Some w"
    using assms by (auto simp: is_hex_def)
  moreover from this have "v < 16" "w < 16"
    by (auto dest: hex_digit_lt_16)
  ultimately show ?thesis
    by (simp add: channel_def)
qed

text \<open>
  On every channel value the rounded double product has the same floor as the exact product
  with three tenths: all 256 values are evaluated.
\<close>

lemma floor_times_0_3_int:
  "\<lfloor>times_0_3 n\<rfloor> = (sgn n * round53 (\<bar>n\<bar> * 5404319552844595)) div 18014398509481984"
proof -
  have "times_0_3 n =
      rat_of_int (sgn n * round53 (\<bar>n\<bar> * 5404319552844595)) / rat_of_int 18014398509481984"
    by (simp add: times_0_3_def)
  then show ?thesis
    by (simp only: floor_divide_of_int_eq)
qed

lemma round53_all:
  "list_all (\<lambda>n. (sgn n * round53 (\<bar>n\<bar> * 5404319552844595)) div 18014398509481984
      = (3 * n) div 10) [0..255]"
  by code_simp

lemma floor_times_0_3:
  assumes "n < 256"
  shows "\<lfloor>times_0_3 (int n)\<rfloor> = (3 * int n) div 10"
proof -
  have "int n \<in> set [0..255]"
    using assms by simp
  with round53_all show ?thesis
    unfolding floor_times_0_3_int list_all_iff by blast
qed

lemma floor_three_tenths: "\<lfloor>real n * 0.3\<rfloor> = (3 * int n) div 10"
proof -
  have "real n * 0.3 = real_of_int (3 * int n) / real_of_int 10"
    by simp
  then show ?thesis
    by (simp only: floor_divide_of_int_eq)
qed

lemma show_num_darken_channel:
  assumes "is_hex c" "is_hex d"
  shows "show_num (darken (parseInt16 [c, d])) = show_nat (nat \<lfloor>real (channel c d) * 0.3\<rfloor>)"
proof -
  have "darken (parseInt16 [c, d]) = Some ((3 * int (channel c d)) div 10)"
    using assms by (simp add: parseInt16_two_digits darken_def floor_times_0_3 channel_lt_256)
  moreover have "show_num (Some ((3 * int (channel c d)) div 10))
      = show_nat (nat ((3 * int (channel c d)) div 10))"
    by (simp add: show_num_def)
  ultimately show ?thesis
    by (simp only: floor_three_tenths)
qed

lemma hex_color6_cases:
  assumes "hex_color6 s"
  obtains r1 r2 g1 g2 b1 b2 where "s = [CHR ''#'', r1, r2, g1, g2, b1, b2]"
    and "is_hex r1" "is_hex r2" "is_hex g1" "is_hex g2" "is_hex b1" "is_hex b2"
proof -
  from assms have len: "length s = 7" and h: "s ! 0 = CHR ''#''" and d: "list_all is_hex (tl s)"
    by (simp_all add: hex_color6_def)
  from len obtain a r1 r2 g1 g2 b1 b2 where s: "s = [a, r1, r2, g1, g2, b1, b2]"
    by (auto simp: length_Suc_conv eval_nat_numeral)
  with h d that show thesis
    by simp
qed

text \<open>
  Claim C7. For every six-digit hexadecimal base colour, the land fill colour is
  \<^verbatim>\<open>rgb(R, G, B)\<close> where each of \<open>R\<close>, \<open>G\<close>, \<open>B\<close> is the floor of the corresponding
  channel of the base colour multiplied by 0.3; the base colour \<^verbatim>\<open>#2a3a4a\<close> gives
  \<^verbatim>\<open>rgb(12, 17, 22)\<close>. The double product computed by the code and the exact product have
  the same floor on all channel values.
\<close>

theorem adjustColorForLand_six_digit:
  "(hex_color6 c \<longrightarrow>
      adjustColorForLand c =
        ''rgb('' @ show_nat (nat \<lfloor>real (channel (c ! 1) (c ! 2)) * 0.3\<rfloor>) @ '', ''
                @ show_nat (nat \<lfloor>real (channel (c ! 3) (c ! 4)) * 0.3\<rfloor>) @ '', ''
                @ show_nat (nat \<lfloor>real (channel (c ! 5) (c ! 6)) * 0.3\<rfloor>) @ '')'')
   \<and> adjustColorForLand ''#2a3a4a'' = ''rgb(12, 17, 22)''"
proof (intro conjI impI)
  assume "hex_color6 c"
  then obtain r1 r2 g1 g2 b1 b2 where c: "c = [CHR ''#'', r1, r2, g1, g2, b1, b2]"
    and hex: "is_hex r1" "is_hex r2" "is_hex g1" "is_hex g2" "is_hex b1" "is_hex b2"
    by (rule hex_color6_cases)
  have sl: "slice c 1 3 = [r1, r2]" "slice c 3 5 = [g1, g2]" "slice c 5 7 = [b1, b2]"
    by (simp_all add: c slice_def)
  have nth: "c ! 1 = r1" "c ! 2 = r2" "c ! 3 = g1" "c ! 4 = g2" "c ! 5 = b1" "c ! 6 = b2"
    by (simp_all add: c)
  show "adjustColorForLand c =
        ''rgb('' @ show_nat (nat \<lfloor>real (channel (c ! 1) (c ! 2)) * 0.3\<rfloor>) @ '', ''
                @ show_nat (nat \<lfloor>real (channel (c ! 3) (c ! 4)) * 0.3\<rfloor>) @ '', ''
                @ show_nat (nat \<lfloor>real (channel (c ! 5) (c ! 6)) * 0.3\<rfloor>) @ '')''"
    unfolding adjustColorForLand_def Let_def sl nth
    by (simp only: show_num_darken_channel hex)
next
  show "adjustColorForLand ''#2a3a4a'' = ''rgb(12, 17, 22)''"
    by code_simp
qed

theorem adjustColorForLand_six_digit_witness:
  "hex_color6 ''#00ff88'' \<and> adjustColorForLand ''#00ff88'' = ''rgb(0, 76, 40)''"
proof -
  have h: "hex_color6 ''#00ff88''"
    by code_simp
  have v: "show_nat (nat \<lfloor>real (channel (''#00ff88'' ! 1) (''#00ff88'' ! 2)) * 0.3\<rfloor>) = ''0''"
      "show_nat (nat \<lfloor>real (channel (''#00ff88'' ! 3) (''#00ff88'' ! 4)) * 0.3\<rfloor>) = ''76''"
      "show_nat (nat \<lfloor>real (channel (''#00ff88'' ! 5) (''#00ff88'' ! 6)) * 0.3\<rfloor>) = ''40''"
    by (simp_all only: floor_three_tenths) code_simp+
  from adjustColorForLand_six_digit [of "''#00ff88''"] h
  have "adjustColorForLand ''#00ff88'' =
        ''rgb('' @ show_nat (nat \<lfloor>real (channel (''#00ff88'' ! 1) (''#00ff88'' ! 2)) * 0.3\<rfloor>) @ '', ''
                @ show_nat (nat \<lfloor>real (channel (''#00ff88'' ! 3) (''#00ff88'' ! 4)) * 0.3\<rfloor>) @ '', ''
                @ show_nat (nat \<lfloor>real (channel (''#00ff88'' ! 5) (''#00ff88'' ! 6)) * 0.3\<rfloor>) @ '')''"
    by blast
  with h show ?thesis
    by (simp only: v) simp
qed

section \<open>Contents of the spatial index\<close>

lemma push_id_apply: "push_id i g k j = (if j = k then Some (cell_ids g k @ [i]) else g j)"
  by (simp add: push_id_def)

lemma cell_ids_push_id:
  "cell_ids (push_id i g k) j = (if j = k then cell_ids g k @ [i] else cell_ids g j)"
  by (simp add: cell_ids_def push_id_def)

lemma foldl_push_id:
  "foldl (push_id i) g ks j =
     (if count_list ks j = 0 then g j else Some (cell_ids g j @ replicate (count_list ks j) i))"
proof (induction ks arbitrary: g)
  case Nil
  show ?case by simp
next
  case (Cons k ks)
  have "foldl (push_id i) g (k # ks) j = foldl (push_id i) (push_id i g k) ks j"
    by simp
  also have "\<dots> = (if count_list ks j = 0 then push_id i g k j
      else Some (cell_ids (push_id i g k) j @ replicate (count_list ks j) i))"
    by (rule Cons.IH)
  also have "\<dots> = (if count_list (k # ks) j = 0 then g j
      else Some (cell_ids g j @ replicate (count_list (k # ks) j) i))"
  proof (cases "j = k")
    case True
    then show ?thesis
      unfolding push_id_apply cell_ids_push_id
      by (simp add: replicate_app_Cons_same)
  next
    case False
    then show ?thesis
      unfolding push_id_apply cell_ids_push_id by auto
  qed
  finally show ?case .
qed

lemma mark_state_neighbourhood:
  "mark_state g st =
     (case datum_centroid st of None \<Rightarrow> g
      | Some c \<Rightarrow> foldl (push_id (datum_id st)) g (neighbourhood c))"
  by (simp add: mark_state_def neighbourhood_def offsets_def Let_def split: option.split)

lemma mark_state_apply:
  "mark_state g st j =
     (case datum_centroid st of None \<Rightarrow> g j
      | Some c \<Rightarrow> if count_list (neighbourhood c) j = 0 then g j
                  else Some (cell_ids g j @ replicate (count_list (neighbourhood c) j) (datum_id st)))"
  by (simp add: mark_state_neighbourhood foldl_push_id split: option.split)

lemma foldl_mark_state:
  "foldl mark_state g sd j =
     (if pushed sd j = [] then g j else Some (cell_ids g j @ pushed sd j))"
proof (induction sd arbitrary: g)
  case Nil
  show ?case by (simp add: pushed_def)
next
  case (Cons st sd)
  have p: "pushed (st # sd) j =
      (case datum_centroid st of None \<Rightarrow> []
       | Some c \<Rightarrow> replicate (count_list (neighbourhood c) j) (datum_id st)) @ pushed sd j"
    by (simp add: pushed_def)
  show ?case
    unfolding foldl_Cons Cons.IH p
    by (auto simp: mark_state_apply cell_ids_def split: option.split)
qed

lemma buildSpatialIndex_cell:
  "spatialIndex (buildSpatialIndex m sd) j = (if pushed sd j = [] then None else Some (pushed sd j))"
  by (simp add: buildSpatialIndex_def foldl_mark_state cell_ids_def)

lemma set_pushed:
  "set (pushed sd j) =
     {datum_id st | st c. st \<in> set sd \<and> datum_centroid st = Some c \<and> j \<in> set (neighbourhood c)}"
proof (induction sd)
  case Nil
  show ?case by (simp add: pushed_def)
next
  case (Cons d sd)
  have p: "pushed (d # sd) j =
      (case datum_centroid d of None \<Rightarrow> []
       | Some c \<Rightarrow> replicate (count_list (neighbourhood c) j) (datum_id d)) @ pushed sd j"
    by (simp add: pushed_def)
  show ?case
    unfolding p set_append Cons.IH
    by (cases "datum_centroid d") (auto simp: count_list_0_iff)
qed

lemma set_neighbourhood:
  "set (neighbourhood c) =
     {cell_index (clampX (gridX (lon c) + dx)) (clampY (gridY (lat c) + dy)) | dx dy.
        - 2 \<le> dx \<and> dx \<le> 2 \<and> - 2 \<le> dy \<and> dy \<le> 2}"
proof -
  have "set offsets = {dx. - 2 \<le> dx \<and> dx \<le> 2}"
    by (auto simp: offsets_def)
  then show ?thesis
    by (auto simp: neighbourhood_def)
qed


lemma clampX_range: "0 \<le> clampX g \<and> clampX g < cellsX"
  by (simp add: clampX_def cellsX_def)

lemma clampY_range: "0 \<le> clampY g \<and> clampY g < cellsY"
  by (simp add: clampY_def cellsY_def)

lemma cell_index_range:
  assumes "0 \<le> x" "x < cellsX" "0 \<le> y" "y < cellsY"
  shows "0 \<le> cell_index x y" "cell_index x y < cellsX * cellsY"
proof -
  show "0 \<le> cell_index x y"
    using assms by (simp add: cell_index_def cellsX_def)
  have "y * cellsX + x < (y + 1) * cellsX"
    using assms by (simp add: algebra_simps)
  also have "\<dots> \<le> cellsY * cellsX"
    using assms by (intro mult_right_mono) (simp_all add: cellsX_def)
  finally show "cell_index x y < cellsX * cellsY"
    by (simp add: cell_index_def mult.commute)
qed

lemma home_in_neighbourhood:
  "cell_index (clampX (gridX (lon c))) (clampY (gridY (lat c))) \<in> set (neighbourhood c)"
  unfolding set_neighbourhood by (rule CollectI, rule exI [of _ 0], rule exI [of _ 0]) simp

lemma cell_ids_buildSpatialIndex:
  "cell_ids (spatialIndex (buildSpatialIndex m sd)) j = pushed sd j"
  by (simp add: cell_ids_def buildSpatialIndex_cell)

lemma gridX_eval: "gridX 180 = 720" "gridX 10 = 380" "gridX 0 = 360" "gridX 200 = 760"
  by (simp_all add: gridX_def cellsX_def)

lemma gridY_eval: "gridY 0 = 180" "gridY 10 = 160" "gridY 100 = - 20"
  by (simp_all add: gridY_def cellsY_def)

section \<open>The great-circle distance\<close>

lemma cos_cos_bounds:
  fixes p q :: real
  shows "- (sin ((q - p) / 2))\<^sup>2 \<le> cos p * cos q" "cos p * cos q \<le> (cos ((q - p) / 2))\<^sup>2"
proof -
  have e: "cos p * cos q = (cos (p - q) + cos (p + q)) / 2"
    by (rule cos_times_cos)
  have d: "cos (p - q) = cos (2 * ((q - p) / 2))"
    by (metis cos_minus minus_diff_eq mult.commute nonzero_divide_eq_eq zero_neq_numeral)
  have s: "cos (p - q) = 1 - 2 * (sin ((q - p) / 2))\<^sup>2"
    unfolding d by (rule cos_double_sin)
  have c: "cos (p - q) = 2 * (cos ((q - p) / 2))\<^sup>2 - 1"
    unfolding d by (rule cos_double_cos)
  have "- 1 \<le> cos (p + q)"
    by (rule cos_ge_minus_one)
  then have b: "0 \<le> 1 + cos (p + q)"
    by linarith
  show "- (sin ((q - p) / 2))\<^sup>2 \<le> cos p * cos q"
    unfolding e s using b by (simp add: field_simps)
  show "cos p * cos q \<le> (cos ((q - p) / 2))\<^sup>2"
    unfolding e c by (simp add: field_simps)
qed

lemma hav_range: "0 \<le> hav lat1 lon1 lat2 lon2" "hav lat1 lon1 lat2 lon2 \<le> 1"
proof -
  define p where "p = lat1 * pi / 180"
  define q where "q = lat2 * pi / 180"
  define x where "x = (q - p) / 2"
  define y where "y = (lon2 - lon1) * pi / 180 / 2"
  have xe: "(lat2 - lat1) * pi / 180 / 2 = x"
    by (simp add: x_def p_def q_def algebra_simps diff_divide_distrib)
  have h: "hav lat1 lon1 lat2 lon2 = (sin x)\<^sup>2 + cos p * cos q * (sin y)\<^sup>2"
    unfolding hav_def xe by (simp add: p_def q_def y_def power2_eq_square algebra_simps)
  have lo: "- (sin x)\<^sup>2 \<le> cos p * cos q" and hi: "cos p * cos q \<le> (cos x)\<^sup>2"
    unfolding x_def by (rule cos_cos_bounds)+
  have sy: "0 \<le> (sin y)\<^sup>2" "(sin y)\<^sup>2 \<le> 1"
    by (simp_all add: abs_square_le_1)
  have "- (sin x)\<^sup>2 * (sin y)\<^sup>2 \<le> cos p * cos q * (sin y)\<^sup>2"
    using lo sy(1) by (rule mult_right_mono)
  moreover have "(sin x)\<^sup>2 * (sin y)\<^sup>2 \<le> (sin x)\<^sup>2 * 1"
    using sy(2) by (intro mult_left_mono) simp_all
  ultimately show "0 \<le> hav lat1 lon1 lat2 lon2"
    unfolding h by simp
  have "cos p * cos q * (sin y)\<^sup>2 \<le> (cos x)\<^sup>2 * (sin y)\<^sup>2"
    using hi sy(1) by (rule mult_right_mono)
  moreover have "(cos x)\<^sup>2 * (sin y)\<^sup>2 \<le> (cos x)\<^sup>2 * 1"
    using sy(2) by (intro mult_left_mono) simp_all
  moreover have "(sin x)\<^sup>2 + (cos x)\<^sup>2 = 1"
    by simp
  ultimately show "hav lat1 lon1 lat2 lon2 \<le> 1"
    unfolding h by linarith
qed

lemma haversineDistance_Fin:
  "haversineDistance la lo (lat c) (lon c) = Fin (great_circle la lo c)"
proof -
  have a: "haversineDistance la lo (lat c) (lon c) =
      (let a = hav la lo (lat c) (lon c)
       in if a < 0 \<or> 1 - a < 0 then NaN else Fin (6371 * (2 * atan2 (sqrt a) (sqrt (1 - a)))))"
    by (simp add: haversineDistance_def hav_def Let_def)
  show ?thesis
    unfolding a great_circle_def Let_def
    using hav_range [of la lo "lat c" "lon c"] by simp
qed

lemma atan2_nonneg:
  assumes "0 \<le> y" "0 \<le> x"
  shows "0 \<le> atan2 y x"
  using assms by (simp add: atan2_def)

lemma great_circle_nonneg: "0 \<le> great_circle la lo c"
  unfolding great_circle_def
  using hav_range [of la lo "lat c" "lon c"] by (simp add: atan2_nonneg)

lemma great_circle_self: "great_circle (lat c) (lon c) c = 0"
  by (simp add: great_circle_def hav_def atan2_def)

lemma great_circle_zero_hav:
  assumes "great_circle la lo c = 0"
  shows "hav la lo (lat c) (lon c) = 0"
proof -
  define a where "a = hav la lo (lat c) (lon c)"
  have r: "0 \<le> a" "a \<le> 1"
    unfolding a_def by (rule hav_range)+
  from assms have z: "atan2 (sqrt a) (sqrt (1 - a)) = 0"
    by (simp add: great_circle_def a_def)
  show ?thesis
  proof (cases "a = 1")
    case True
    with z have "pi / 2 = 0"
      by (simp add: atan2_def)
    then show ?thesis
      using pi_gt_zero by simp
  next
    case False
    with r have p: "0 < sqrt (1 - a)"
      by simp
    with z have "arctan (sqrt a / sqrt (1 - a)) = 0"
      by (simp add: atan2_def)
    then have "sqrt a / sqrt (1 - a) = 0"
      by (simp only: arctan_eq_zero_iff)
    with p have "sqrt a = 0"
      by simp
    then show ?thesis
      unfolding a_def by simp
  qed
qed

lemma deg_less: "a < b \<Longrightarrow> a * pi / 180 < b * pi / 180"
  by (simp add: divide_strict_right_mono)

lemma deg_le: "a \<le> b \<Longrightarrow> a * pi / 180 \<le> b * pi / 180"
  by (simp add: divide_right_mono)

lemma hav_zero_same:
  assumes h: "hav la lo la' lo' = 0"
    and la: "- 90 < la" "la < 90" and la': "- 90 \<le> la'" "la' \<le> 90"
    and lo: "\<bar>lo' - lo\<bar> < 360"
  shows "la' = la \<and> lo' = lo"
proof -
  define x where "x = (la' - la) * pi / 180 / 2"
  define y where "y = (lo' - lo) * pi / 180 / 2"
  define p where "p = la * pi / 180"
  define q where "q = la' * pi / 180"
  have pb: "- (pi / 2) < p" "p < pi / 2"
    using deg_less [OF la(1)] deg_less [OF la(2)] by (simp_all add: p_def)
  have qb: "- (pi / 2) \<le> q" "q \<le> pi / 2"
    using deg_le [OF la'(1)] deg_le [OF la'(2)] by (simp_all add: q_def)
  have cp: "0 < cos p"
    using pb by (rule cos_gt_zero_pi)
  have cq: "0 \<le> cos q"
    using qb by (rule cos_ge_zero)
  have e: "hav la lo la' lo' = (sin x)\<^sup>2 + cos p * cos q * (sin y)\<^sup>2"
    by (simp add: hav_def x_def y_def p_def q_def power2_eq_square algebra_simps)
  have n: "0 \<le> cos p * cos q * (sin y)\<^sup>2"
    using cp cq by simp
  from h e n have sx: "(sin x)\<^sup>2 = 0" and t: "cos p * cos q * (sin y)\<^sup>2 = 0"
    by (smt (verit) zero_le_power2)+
  have xb: "- pi < x" "x < pi"
  proof -
    define t where "t = (la' - la) * pi / 180"
    have "- 180 < la' - la" "la' - la < 180"
      using la la' by simp_all
    then have "(- 180) * pi / 180 < t" "t < 180 * pi / 180"
      unfolding t_def by (simp_all only: deg_less)
    then have "- pi < t" "t < pi"
      by simp_all
    moreover have "x = t / 2"
      by (simp add: x_def t_def)
    ultimately show "- pi < x" "x < pi"
      using pi_gt_zero by linarith+
  qed
  from sx have "sin x = 0"
    by simp
  with xb have "x = 0"
    by (rule sin_eq_0_pi)
  then have same: "la' = la"
    using pi_gt_zero by (simp add: x_def)
  then have "q = p"
    by (simp add: p_def q_def)
  with t cp have "sin y = 0"
    by simp
  moreover have "- pi < y" "y < pi"
  proof -
    define t where "t = (lo' - lo) * pi / 180"
    have "- 360 < lo' - lo" "lo' - lo < 360"
      using lo by (simp_all add: abs_less_iff)
    then have "(- 360) * pi / 180 < t" "t < 360 * pi / 180"
      unfolding t_def by (simp_all only: deg_less)
    then have "- (2 * pi) < t" "t < 2 * pi"
      by simp_all
    moreover have "y = t / 2"
      by (simp add: y_def t_def)
    ultimately show "- pi < y" "y < pi"
      by linarith+
  qed
  ultimately have "y = 0"
    using sin_eq_0_pi by blast
  then have "lo' = lo"
    using pi_gt_zero by (simp add: y_def)
  with same show ?thesis
    by simp
qed

lemma great_circle_pos:
  assumes "- 90 < la" "la < 90" "- 90 \<le> lat c" "lat c \<le> 90" "\<bar>lon c - lo\<bar> < 360"
    and "lat c \<noteq> la \<or> lon c \<noteq> lo"
  shows "great_circle la lo c \<noteq> 0"
  using assms great_circle_zero_hav [of la lo c] hav_zero_same [of la lo "lat c" "lon c"]
  by blast

section \<open>The candidate loop\<close>

lemma closer_resolved:
  "closer sts la lo acc i = foldl (nearer la lo) acc (resolved sts [i])"
  by (simp add: closer_def resolved_def nearer_def haversineDistance_Fin Let_def split: option.split)

lemma resolved_Cons: "resolved sts (i # ids) = resolved sts [i] @ resolved sts ids"
  by (simp add: resolved_def)

lemma foldl_closer:
  "foldl (closer sts la lo) acc ids = foldl (nearer la lo) acc (resolved sts ids)"
proof (induction ids arbitrary: acc)
  case Nil
  show ?case by (simp add: resolved_def)
next
  case (Cons i ids)
  have "foldl (closer sts la lo) acc (i # ids) = foldl (closer sts la lo) (closer sts la lo acc i) ids"
    by simp
  also have "\<dots> = foldl (nearer la lo) (foldl (nearer la lo) acc (resolved sts [i])) (resolved sts ids)"
    unfolding Cons.IH closer_resolved ..
  also have "\<dots> = foldl (nearer la lo) acc (resolved sts (i # ids))"
    unfolding resolved_Cons [of sts i ids] foldl_append ..
  finally show ?case .
qed

lemma set_resolved:
  "set (resolved sts ids) =
     {(st, c). \<exists>i \<in> set ids. sts i = Some st \<and> state_centroid st = Some c}"
  by (auto simp: resolved_def split: option.splits)

lemma foldl_nearer:
  "(ps = [] \<longrightarrow> foldl (nearer la lo) (None, Infinity) ps = (None, Infinity)) \<and>
   (ps \<noteq> [] \<longrightarrow> (\<exists>pre st c post. ps = pre @ (st, c) # post
        \<and> foldl (nearer la lo) (None, Infinity) ps = (Some st, Fin (great_circle la lo c))
        \<and> (\<forall>p \<in> set pre. great_circle la lo c < great_circle la lo (snd p))
        \<and> (\<forall>p \<in> set post. great_circle la lo c \<le> great_circle la lo (snd p))))"
proof (induction ps rule: rev_induct)
  case Nil
  show ?case by simp
next
  case (snoc q qs)
  show ?case
  proof (cases "qs = []")
    case True
    then have "foldl (nearer la lo) (None, Infinity) (qs @ [q]) = (Some (fst q), Fin (great_circle la lo (snd q)))"
      by (simp add: nearer_def)
    moreover have "qs @ [q] = [] @ (fst q, snd q) # []"
      using True by simp
    ultimately show ?thesis
      by (metis empty_iff list.set(1) snoc_eq_iff_butlast)
  next
    case False
    with snoc.IH obtain pre st c post where d: "qs = pre @ (st, c) # post"
      and f: "foldl (nearer la lo) (None, Infinity) qs = (Some st, Fin (great_circle la lo c))"
      and lt: "\<forall>p \<in> set pre. great_circle la lo c < great_circle la lo (snd p)"
      and le: "\<forall>p \<in> set post. great_circle la lo c \<le> great_circle la lo (snd p)"
      by blast
    show ?thesis
    proof (cases "great_circle la lo (snd q) < great_circle la lo c")
      case True
      then have "foldl (nearer la lo) (None, Infinity) (qs @ [q]) = (Some (fst q), Fin (great_circle la lo (snd q)))"
        by (simp add: f nearer_def)
      moreover have "qs @ [q] = qs @ (fst q, snd q) # []"
        by simp
      moreover have "\<forall>p \<in> set qs. great_circle la lo (snd q) < great_circle la lo (snd p)"
        using True lt le unfolding d by fastforce
      ultimately show ?thesis
        by (metis empty_iff list.set(1) snoc_eq_iff_butlast)
    next
      case False
      then have "foldl (nearer la lo) (None, Infinity) (qs @ [q]) = (Some st, Fin (great_circle la lo c))"
        by (simp add: f nearer_def)
      moreover have "qs @ [q] = pre @ (st, c) # (post @ [q])"
        by (simp add: d)
      moreover have "\<forall>p \<in> set (post @ [q]). great_circle la lo c \<le> great_circle la lo (snd p)"
        using False le by auto
      ultimately show ?thesis
        using lt by (metis snoc_eq_iff_butlast)
    qed
  qed
qed

lemma findStateAtCoords_resolved:
  "findStateAtCoords m la lo =
     (case spatialIndex m (cell_index (clampX (gridX lo)) (clampY (gridY la))) of
        None \<Rightarrow> None
      | Some candidates \<Rightarrow> fst (foldl (nearer la lo) (None, Infinity) (resolved (states m) candidates)))"
  by (simp add: findStateAtCoords_def foldl_closer Let_def resolved_def split: option.split)

lemma states_buildSpatialIndex: "states (buildSpatialIndex m sd) = states m"
  by (simp add: buildSpatialIndex_def)

lemma findStateAtCoords_cases:
  assumes "spatialIndex m (cell_index (clampX (gridX lo)) (clampY (gridY la))) = Some cands"
  shows "(resolved (states m) cands = [] \<longrightarrow> findStateAtCoords m la lo = None) \<and>
     (resolved (states m) cands \<noteq> [] \<longrightarrow>
        (\<exists>pre st c post. resolved (states m) cands = pre @ (st, c) # post
           \<and> findStateAtCoords m la lo = Some st
           \<and> (\<forall>p \<in> set pre. great_circle la lo c < great_circle la lo (snd p))
           \<and> (\<forall>p \<in> set post. great_circle la lo c \<le> great_circle la lo (snd p))))"
proof -
  have f: "findStateAtCoords m la lo =
      fst (foldl (nearer la lo) (None, Infinity) (resolved (states m) cands))"
    by (simp add: findStateAtCoords_resolved assms)
  show ?thesis
  proof (intro conjI impI)
    assume "resolved (states m) cands = []"
    then show "findStateAtCoords m la lo = None"
      by (simp add: f)
  next
    assume "resolved (states m) cands \<noteq> []"
    with foldl_nearer [of "resolved (states m) cands" la lo]
    obtain pre st c post where "resolved (states m) cands = pre @ (st, c) # post"
      "foldl (nearer la lo) (None, Infinity) (resolved (states m) cands)
         = (Some st, Fin (great_circle la lo c))"
      "\<forall>p \<in> set pre. great_circle la lo c < great_circle la lo (snd p)"
      "\<forall>p \<in> set post. great_circle la lo c \<le> great_circle la lo (snd p)"
      by blast
    then show "\<exists>pre st c post. resolved (states m) cands = pre @ (st, c) # post
           \<and> findStateAtCoords m la lo = Some st
           \<and> (\<forall>p \<in> set pre. great_circle la lo c < great_circle la lo (snd p))
           \<and> (\<forall>p \<in> set post. great_circle la lo c \<le> great_circle la lo (snd p))"
      unfolding f by (metis fst_conv)
  qed
qed

lemma findStateAtCoords_SomeD:
  assumes "findStateAtCoords m la lo = Some s"
  shows "\<exists>cands i c. spatialIndex m (cell_index (clampX (gridX lo)) (clampY (gridY la))) = Some cands
     \<and> i \<in> set cands \<and> states m i = Some s \<and> state_centroid s = Some c"
proof (cases "spatialIndex m (cell_index (clampX (gridX lo)) (clampY (gridY la)))")
  case None
  with assms show ?thesis
    by (simp add: findStateAtCoords_resolved)
next
  case (Some cands)
  note c = findStateAtCoords_cases [OF Some]
  from c assms have "resolved (states m) cands \<noteq> []"
    by auto
  with c assms obtain pre c' post where "resolved (states m) cands = pre @ (s, c') # post"
    by auto
  then have "(s, c') \<in> set (resolved (states m) cands)"
    by simp
  then show ?thesis
    unfolding set_resolved using Some by auto
qed

lemma clampX_nearest:
  assumes "0 \<le> x" "x < cellsX"
  shows "\<bar>clampX g - g\<bar> \<le> \<bar>x - g\<bar>"
  using assms by (simp add: clampX_def cellsX_def)

lemma clampY_nearest:
  assumes "0 \<le> y" "y < cellsY"
  shows "\<bar>clampY g - g\<bar> \<le> \<bar>y - g\<bar>"
  using assms by (simp add: clampY_def cellsY_def)

lemma gridX_out_of_range:
  "180 < lo \<Longrightarrow> cellsX \<le> gridX lo" "lo < - 180 \<Longrightarrow> gridX lo < 0"
proof -
  assume "180 < lo"
  then have "real_of_int 720 \<le> (lo + 180) * (real_of_int 720 / 360)"
    by simp
  then show "cellsX \<le> gridX lo"
    unfolding gridX_def cellsX_def by (simp only: le_floor_iff)
next
  assume "lo < - 180"
  then have "(lo + 180) * (real_of_int 720 / 360) < real_of_int 0"
    by simp
  then show "gridX lo < 0"
    unfolding gridX_def cellsX_def by (simp only: floor_less_iff)
qed

lemma gridY_out_of_range:
  "90 < la \<Longrightarrow> gridY la < 0" "la < - 90 \<Longrightarrow> cellsY \<le> gridY la"
proof -
  assume "90 < la"
  then have "(90 - la) * (real_of_int 360 / 180) < real_of_int 0"
    by simp
  then show "gridY la < 0"
    unfolding gridY_def cellsY_def by (simp only: floor_less_iff)
next
  assume "la < - 90"
  then have "real_of_int 360 \<le> (90 - la) * (real_of_int 360 / 180)"
    by simp
  then show "cellsY \<le> gridY la"
    unfolding gridY_def cellsY_def by (simp only: le_floor_iff)
qed

lemma resolved_ABC_A:
  "resolved (states (buildSpatialIndex catalogue_ABC sd)) [''A'']
     = [(mk_state ''A'' (Some \<lparr>lat = 10, lon = 10\<rparr>), \<lparr>lat = 10, lon = 10\<rparr>)]"
  by (simp add: resolved_def states_buildSpatialIndex catalogue_ABC_def new_manager_def mk_state_def)

lemma cell_ABC_379_159:
  "spatialIndex (buildSpatialIndex catalogue_ABC centroids_ABC) (cell_index 379 159) = Some [''A'']"
proof -
  have "count_list (neighbourhood \<lparr>lat = 10, lon = 10\<rparr>) (cell_index 379 159) = 1"
    "count_list (neighbourhood \<lparr>lat = - 10, lon = - 10\<rparr>) (cell_index 379 159) = 0"
    by (simp_all add: neighbourhood_def offsets_def gridX_def gridY_def
        clampX_def clampY_def cell_index_def cellsX_def cellsY_def)
  then show ?thesis
    by (simp add: buildSpatialIndex_cell pushed_def centroids_ABC_def mk_datum_def)
qed

section \<open>Building the index\<close>

text \<open>
  Claim C3, as the code has it. After \<^verbatim>\<open>buildSpatialIndex\<close>, an id is in a cell exactly when
  some input entry with that id has a centroid and the cell is one of the 25 cells
  \<open>(clamp (gx + dx), clamp (gy + dy))\<close>, \<open>dx\<close> and \<open>dy\<close> from \<open>-2\<close> to \<open>2\<close>, where
  \<open>gx = floor ((lon + 180) * cellsX / 360)\<close> and \<open>gy = floor ((90 - lat) * cellsY / 180)\<close> are
  the home cell as computed, not clamped; each neighbour is clamped on its own and none wraps
  around. Every such cell is inside the grid, and an id that only occurs without a centroid
  is in no cell.
\<close>

theorem buildSpatialIndex_neighbourhood:
  "(i \<in> set (cell_ids (spatialIndex (buildSpatialIndex m sd)) j) \<longleftrightarrow>
      (\<exists>st \<in> set sd. datum_id st = i \<and>
         (\<exists>c dx dy. datum_centroid st = Some c \<and> - 2 \<le> dx \<and> dx \<le> 2 \<and> - 2 \<le> dy \<and> dy \<le> 2 \<and>
            j = cell_index (clampX (gridX (lon c) + dx)) (clampY (gridY (lat c) + dy)))))
   \<and> (i \<in> set (cell_ids (spatialIndex (buildSpatialIndex m sd)) j) \<longrightarrow> 0 \<le> j \<and> j < cellsX * cellsY)
   \<and> ((\<forall>st \<in> set sd. datum_id st = i \<longrightarrow> datum_centroid st = None) \<longrightarrow>
        i \<notin> set (cell_ids (spatialIndex (buildSpatialIndex m sd)) j))"
proof -
  have c: "cell_ids (spatialIndex (buildSpatialIndex m sd)) j = pushed sd j"
    by (simp add: cell_ids_def buildSpatialIndex_cell)
  have a: "i \<in> set (pushed sd j) \<longleftrightarrow>
      (\<exists>st \<in> set sd. datum_id st = i \<and>
         (\<exists>c dx dy. datum_centroid st = Some c \<and> - 2 \<le> dx \<and> dx \<le> 2 \<and> - 2 \<le> dy \<and> dy \<le> 2 \<and>
            j = cell_index (clampX (gridX (lon c) + dx)) (clampY (gridY (lat c) + dy))))"
    unfolding set_pushed set_neighbourhood by blast
  have b: "0 \<le> j \<and> j < cellsX * cellsY" if "i \<in> set (pushed sd j)"
  proof -
    from that a obtain x y where "j = cell_index (clampX x) (clampY y)"
      by blast
    then show ?thesis
      using cell_index_range [of "clampX x" "clampY y"] clampX_range [of x] clampY_range [of y]
      by simp
  qed
  show ?thesis
    unfolding c using a b by auto
qed

theorem buildSpatialIndex_neighbourhood_witness:
  "''A'' \<in> set (cell_ids (spatialIndex (buildSpatialIndex new_manager
        [mk_datum ''A'' (Some \<lparr>lat = 0, lon = 180\<rparr>), mk_datum ''C'' None])) (cell_index 718 182))
   \<and> (0 \<le> cell_index 718 182 \<and> cell_index 718 182 < cellsX * cellsY)
   \<and> ''C'' \<notin> set (cell_ids (spatialIndex (buildSpatialIndex new_manager
        [mk_datum ''A'' (Some \<lparr>lat = 0, lon = 180\<rparr>), mk_datum ''C'' None])) (cell_index 718 182))"
proof -
  let ?sd = "[mk_datum ''A'' (Some \<lparr>lat = 0, lon = 180\<rparr>), mk_datum ''C'' None]"
  have e: "cell_index 718 182 = cell_index (clampX (gridX 180 + (- 2))) (clampY (gridY 0 + 2))"
    by (simp add: gridX_eval gridY_eval clampX_def clampY_def cellsX_def cellsY_def)
  have "\<exists>c dx dy. datum_centroid (mk_datum ''A'' (Some \<lparr>lat = 0, lon = 180\<rparr>)) = Some c
      \<and> - 2 \<le> dx \<and> dx \<le> 2 \<and> - 2 \<le> dy \<and> dy \<le> 2
      \<and> cell_index 718 182 = cell_index (clampX (gridX (lon c) + dx)) (clampY (gridY (lat c) + dy))"
    by (rule exI [of _ "\<lparr>lat = 0, lon = 180\<rparr>"], rule exI [of _ "- 2"], rule exI [of _ 2])
      (simp add: mk_datum_def e)
  then have h1: "\<exists>st \<in> set ?sd. datum_id st = ''A'' \<and>
         (\<exists>c dx dy. datum_centroid st = Some c \<and> - 2 \<le> dx \<and> dx \<le> 2 \<and> - 2 \<le> dy \<and> dy \<le> 2 \<and>
            cell_index 718 182 = cell_index (clampX (gridX (lon c) + dx)) (clampY (gridY (lat c) + dy)))"
    by (intro bexI [of _ "mk_datum ''A'' (Some \<lparr>lat = 0, lon = 180\<rparr>)"] conjI)
      (simp_all add: mk_datum_def)
  have h2: "\<forall>st \<in> set ?sd. datum_id st = ''C'' \<longrightarrow> datum_centroid st = None"
    by (simp add: mk_datum_def)
  note t = buildSpatialIndex_neighbourhood [of "''A''" new_manager ?sd "cell_index 718 182"]
  note u = buildSpatialIndex_neighbourhood [of "''C''" new_manager ?sd "cell_index 718 182"]
  have a: "''A'' \<in> set (cell_ids (spatialIndex (buildSpatialIndex new_manager ?sd)) (cell_index 718 182))"
    by (rule iffD2 [OF conjunct1 [OF t] h1])
  have r: "0 \<le> cell_index 718 182 \<and> cell_index 718 182 < cellsX * cellsY"
    by (rule mp [OF conjunct1 [OF conjunct2 [OF t]] a])
  have c: "''C'' \<notin> set (cell_ids (spatialIndex (buildSpatialIndex new_manager ?sd)) (cell_index 718 182))"
    by (rule mp [OF conjunct2 [OF conjunct2 [OF u]] h2])
  show ?thesis
    by (intro conjI a c conjunct1 [OF r] conjunct2 [OF r])
qed

text \<open>
  Claim C3 as stated takes the neighbourhood around the clamped home cell. For a centroid at
  longitude 180 the computed home column is 720; the code marks the columns 718 and 719, and
  the column 717, which is in the neighbourhood of the clamped home column 719, stays empty.
\<close>

theorem buildSpatialIndex_clamped_home_counterexample:
  "cell_index 717 180 \<in> set (clamped_home_neighbourhood \<lparr>lat = 0, lon = 180\<rparr>)
   \<and> ''A'' \<notin> set (cell_ids (spatialIndex (buildSpatialIndex new_manager
          [mk_datum ''A'' (Some \<lparr>lat = 0, lon = 180\<rparr>)])) (cell_index 717 180))"
proof
  show "cell_index 717 180 \<in> set (clamped_home_neighbourhood \<lparr>lat = 0, lon = 180\<rparr>)"
    by (simp add: clamped_home_neighbourhood_def offsets_def gridX_eval gridY_eval
        clampX_def clampY_def cell_index_def cellsX_def cellsY_def)
  have "cell_index 717 180 \<notin> set (neighbourhood \<lparr>lat = 0, lon = 180\<rparr>)"
    by (simp add: neighbourhood_def offsets_def gridX_eval gridY_eval
        clampX_def clampY_def cell_index_def cellsX_def cellsY_def)
  then show "''A'' \<notin> set (cell_ids (spatialIndex (buildSpatialIndex new_manager
          [mk_datum ''A'' (Some \<lparr>lat = 0, lon = 180\<rparr>)])) (cell_index 717 180))"
    by (simp add: cell_ids_buildSpatialIndex pushed_def mk_datum_def)
qed

text \<open>
  Claim C9. Building the index twice from the same input gives the same manager as building
  it once, and the index does not depend on the manager it is built in: every cell is
  \<^verbatim>\<open>null\<close> when nothing is pushed into it and otherwise holds, in order, what the input
  pushes. The catalogue and the elements are not touched.
\<close>

theorem buildSpatialIndex_idempotent:
  "buildSpatialIndex (buildSpatialIndex m sd) sd = buildSpatialIndex m sd
   \<and> spatialIndex (buildSpatialIndex m sd) = spatialIndex (buildSpatialIndex m' sd)
   \<and> spatialIndex (buildSpatialIndex m sd) j = (if pushed sd j = [] then None else Some (pushed sd j))
   \<and> states (buildSpatialIndex m sd) = states m
   \<and> stateElements (buildSpatialIndex m sd) = stateElements m"
proof (intro conjI)
  have fresh: "spatialIndex (buildSpatialIndex n sd) = foldl mark_state (\<lambda>_. None) sd" for n
    by (simp add: buildSpatialIndex_def)
  show "buildSpatialIndex (buildSpatialIndex m sd) sd = buildSpatialIndex m sd"
    by (simp add: buildSpatialIndex_def)
  show "spatialIndex (buildSpatialIndex m sd) = spatialIndex (buildSpatialIndex m' sd)"
    by (simp only: fresh)
  have "foldl mark_state (\<lambda>_. None) sd j =
      (if pushed sd j = [] then None else Some (cell_ids (\<lambda>_. None) j @ pushed sd j))"
    by (rule foldl_mark_state)
  then show "spatialIndex (buildSpatialIndex m sd) j
      = (if pushed sd j = [] then None else Some (pushed sd j))"
    by (simp add: fresh cell_ids_def)
  show "states (buildSpatialIndex m sd) = states m"
    by (simp add: buildSpatialIndex_def)
  show "stateElements (buildSpatialIndex m sd) = stateElements m"
    by (simp add: buildSpatialIndex_def)
qed

section \<open>Looking a point up\<close>



text \<open>
  Claim C8. A state without a centroid is never the result of a lookup, whatever the index
  holds, and an id that the input of the build only lists without a centroid is put into no
  cell.
\<close>

theorem no_centroid_unreachable:
  "(state_centroid r = None \<longrightarrow> findStateAtCoords m la lo \<noteq> Some r)
   \<and> ((\<forall>st \<in> set sd. datum_id st = i \<longrightarrow> datum_centroid st = None)
        \<longrightarrow> i \<notin> set (cell_ids (spatialIndex (buildSpatialIndex m' sd)) j))"
proof (intro conjI impI)
  assume "state_centroid r = None"
  then show "findStateAtCoords m la lo \<noteq> Some r"
    using findStateAtCoords_SomeD [of m la lo r] by auto
next
  assume "\<forall>st \<in> set sd. datum_id st = i \<longrightarrow> datum_centroid st = None"
  then show "i \<notin> set (cell_ids (spatialIndex (buildSpatialIndex m' sd)) j)"
    unfolding cell_ids_buildSpatialIndex set_pushed by auto
qed

theorem no_centroid_unreachable_witness:
  "findStateAtCoords (buildSpatialIndex catalogue_ABC centroids_ABC) 89 179 \<noteq> Some (mk_state ''C'' None)
   \<and> ''C'' \<notin> set (cell_ids (spatialIndex (buildSpatialIndex catalogue_ABC centroids_ABC))
                      (cell_index 380 160))"
proof -
  have a: "state_centroid (mk_state ''C'' None) = None"
    by (simp add: mk_state_def)
  have b: "\<forall>st \<in> set centroids_ABC. datum_id st = ''C'' \<longrightarrow> datum_centroid st = None"
    by (simp add: centroids_ABC_def mk_datum_def)
  note t = no_centroid_unreachable [where r = "mk_state ''C'' None"
      and m = "buildSpatialIndex catalogue_ABC centroids_ABC" and la = 89 and lo = 179
      and sd = centroids_ABC and i = "''C''" and m' = catalogue_ABC and j = "cell_index 380 160"]
  show ?thesis
    by (intro conjI mp [OF conjunct1 [OF t] a] mp [OF conjunct2 [OF t] b])
qed






section \<open>Drawing on the canvas context\<close>

lemma foldl_related:
  assumes "list_all2 R xs ys" "Q c c'"
    and "\<And>x y c c'. R x y \<Longrightarrow> Q c c' \<Longrightarrow> Q (f c x) (g c' y)"
  shows "Q (foldl f c xs) (foldl g c' ys)"
  using assms(1,2)
proof (induction xs ys arbitrary: c c' rule: list_all2_induct)
  case Nil
  then show ?case by simp
next
  case (Cons x xs y ys)
  then show ?case
    using assms(3) by simp
qed

lemma foldl_same:
  assumes "Q c c'" and "\<And>x c c'. Q c c' \<Longrightarrow> Q (f c x) (f c' x)"
  shows "Q (foldl f c xs) (foldl f c' xs)"
  using assms(1) by (induction xs arbitrary: c c') (simp_all add: assms(2))

lemma foldl_keeps:
  assumes "\<And>x c. h (f c x) = h c"
  shows "h (foldl f c xs) = h c"
  by (induction xs arbitrary: c) (simp_all add: assms)

lemma sim_start:
  assumes "parses c = parses c'" "transform c = transform c'"
  shows "sim False False False False False c c' c c'"
  using assms by (simp add: sim_def agree_def)

lemma sim_weaken:
  assumes "sim f s w p k c0 c0' c c'"
    and "f' \<longrightarrow> f" "s' \<longrightarrow> s" "w' \<longrightarrow> w" "p' \<longrightarrow> p" "k' \<longrightarrow> k"
  shows "sim f' s' w' p' k' c0 c0' c c'"
  using assms by (auto simp: sim_def)

lemma sim_set_fillStyle:
  assumes "sim f s w p k c0 c0' c c'"
  shows "sim f s w p k c0 c0' (set_fillStyle v c) (set_fillStyle v c')"
  using assms
  by (auto simp: sim_def agree_def top_agree_def set_fillStyle_def split: style.split)

lemma sim_set_fillStyle_color:
  assumes "sim f s w p k c0 c0' c c'" "parses c col"
  shows "sim True s w p k c0 c0' (set_fillStyle (Color col) c) (set_fillStyle (Color col) c')"
  using assms by (auto simp: sim_def agree_def top_agree_def set_fillStyle_def)

lemma sim_set_fillStyle_gradient:
  assumes "sim f s w p k c0 c0' c c'"
  shows "sim True s w p k c0 c0' (set_fillStyle (Gradient g) c) (set_fillStyle (Gradient g) c')"
  using assms by (auto simp: sim_def agree_def top_agree_def set_fillStyle_def)

lemma sim_set_strokeStyle_color:
  assumes "sim f s w p k c0 c0' c c'" "parses c col"
  shows "sim f True w p k c0 c0' (set_strokeStyle (Color col) c) (set_strokeStyle (Color col) c')"
  using assms by (auto simp: sim_def agree_def top_agree_def set_strokeStyle_def)

lemma sim_set_lineWidth:
  assumes "sim f s w p k c0 c0' c c'" "0 < x"
  shows "sim f s True p k c0 c0' (set_lineWidth x c) (set_lineWidth x c')"
  using assms by (auto simp: sim_def agree_def top_agree_def set_lineWidth_def)

lemma sim_fillRect:
  assumes "sim True s w p k c0 c0' c c'"
  shows "sim True s w p k c0 c0' (fillRect x y a b c) (fillRect x y a b c')"
  using assms by (auto simp: sim_def agree_def top_agree_def fillRect_def)

lemma sim_fill_path:
  assumes "sim True s w p k c0 c0' c c'"
  shows "sim True s w p k c0 c0' (fill_path d c) (fill_path d c')"
  using assms by (auto simp: sim_def agree_def top_agree_def fill_path_def)

lemma sim_stroke_path:
  assumes "sim f True True p k c0 c0' c c'"
  shows "sim f True True p k c0 c0' (stroke_path d c) (stroke_path d c')"
  using assms by (auto simp: sim_def agree_def top_agree_def stroke_path_def)

lemma sim_beginPath:
  assumes "sim f s w p k c0 c0' c c'"
  shows "sim f s w True k c0 c0' (beginPath c) (beginPath c')"
  using assms by (auto simp: sim_def agree_def top_agree_def beginPath_def)

lemma sim_moveTo:
  assumes "sim f s w p k c0 c0' c c'"
  shows "sim f s w p k c0 c0' (moveTo x y c) (moveTo x y c')"
  using assms by (auto simp: sim_def agree_def top_agree_def moveTo_def)

lemma sim_lineTo:
  assumes "sim f s w p k c0 c0' c c'"
  shows "sim f s w p k c0 c0' (lineTo x y c) (lineTo x y c')"
  using assms by (auto simp: sim_def agree_def top_agree_def lineTo_def)

lemma sim_closePath:
  assumes "sim f s w p k c0 c0' c c'"
  shows "sim f s w p k c0 c0' (closePath c) (closePath c')"
  using assms by (auto simp: sim_def agree_def top_agree_def closePath_def)

lemma sim_fill_current:
  assumes "sim True s w True k c0 c0' c c'"
  shows "sim True s w True k c0 c0' (fill_current c) (fill_current c')"
  using assms by (auto simp: sim_def agree_def top_agree_def fill_current_def)

lemma sim_stroke_current:
  assumes "sim f True True True k c0 c0' c c'"
  shows "sim f True True True k c0 c0' (stroke_current c) (stroke_current c')"
  using assms by (auto simp: sim_def agree_def top_agree_def stroke_current_def)

lemma sim_save:
  assumes "sim True s w p k c0 c0' c c'"
  shows "sim True s w p True c0 c0' (save c) (save c')"
  using assms by (auto simp: sim_def agree_def top_agree_def save_def)

lemma sim_scale:
  assumes "sim f s w p k c0 c0' c c'"
  shows "sim f s w p k c0 c0' (scale x y c) (scale x y c')"
  using assms by (auto simp: sim_def agree_def top_agree_def scale_def split: jsnum.split)

lemma sim_restore:
  assumes "sim f s w p True c0 c0' c c'"
  shows "sim True False False p False c0 c0' (restore c) (restore c')"
  using assms
  by (cases "saved c"; cases "saved c'") (auto simp: sim_def agree_def top_agree_def restore_def)

lemma parses_prims [simp]:
  "parses (set_fillStyle v c) = parses c" "parses (set_strokeStyle v c) = parses c"
  "parses (set_lineWidth x c) = parses c" "parses (fillRect a b d e c) = parses c"
  "parses (fill_path q c) = parses c" "parses (stroke_path q c) = parses c"
  "parses (beginPath c) = parses c" "parses (moveTo a b c) = parses c"
  "parses (lineTo a b c) = parses c" "parses (closePath c) = parses c"
  "parses (fill_current c) = parses c" "parses (stroke_current c) = parses c"
  "parses (save c) = parses c" "parses (restore c) = parses c" "parses (scale sx sy c) = parses c"
  by (simp_all add: set_fillStyle_def set_strokeStyle_def set_lineWidth_def fillRect_def
      fill_path_def stroke_path_def beginPath_def moveTo_def lineTo_def closePath_def
      fill_current_def stroke_current_def save_def restore_def scale_def
      split: style.split list.split jsnum.split)

lemma transform_prims [simp]:
  "transform (set_fillStyle v c) = transform c" "transform (set_strokeStyle v c) = transform c"
  "transform (set_lineWidth x c) = transform c" "transform (fillRect a b d e c) = transform c"
  "transform (fill_path q c) = transform c" "transform (stroke_path q c) = transform c"
  "transform (beginPath c) = transform c" "transform (moveTo a b c) = transform c"
  "transform (lineTo a b c) = transform c" "transform (closePath c) = transform c"
  "transform (fill_current c) = transform c" "transform (stroke_current c) = transform c"
  by (simp_all add: set_fillStyle_def set_strokeStyle_def set_lineWidth_def fillRect_def
      fill_path_def stroke_path_def beginPath_def moveTo_def lineTo_def closePath_def
      fill_current_def stroke_current_def split: style.split)

lemma saved_prims [simp]:
  "saved (set_fillStyle v c) = saved c" "saved (set_strokeStyle v c) = saved c"
  "saved (set_lineWidth x c) = saved c" "saved (fillRect a b d e c) = saved c"
  "saved (fill_path q c) = saved c" "saved (stroke_path q c) = saved c"
  "saved (beginPath c) = saved c" "saved (moveTo a b c) = saved c"
  "saved (lineTo a b c) = saved c" "saved (closePath c) = saved c"
  "saved (fill_current c) = saved c" "saved (stroke_current c) = saved c"
  "saved (scale sx sy c) = saved c"
  by (simp_all add: set_fillStyle_def set_strokeStyle_def set_lineWidth_def fillRect_def
      fill_path_def stroke_path_def beginPath_def moveTo_def lineTo_def closePath_def
      fill_current_def stroke_current_def scale_def split: style.split jsnum.split)

lemma renderRegion_keeps [simp]:
  "parses (renderRegion st c r) = parses c" "transform (renderRegion st c r) = transform c"
  "saved (renderRegion st c r) = saved c"
  by (simp_all add: renderRegion_def Let_def)

lemma renderRegion_sim:
  assumes "sim True s w p k c0 c0' c c'" "well_themed (theme st) c"
    and "theme st = theme st'" "ownerColors st = ownerColors st'"
    and "drawn_fields r = drawn_fields r'"
  shows "sim True False False False k c0 c0' (renderRegion st c r) (renderRegion st' c' r')"
proof (cases "truthy (pathData r)")
  case False
  moreover from assms(5) have "pathData r' = pathData r"
    by (simp add: drawn_fields_def)
  ultimately have "renderRegion st c r = c" "renderRegion st' c' r' = c'"
    by (simp_all add: renderRegion_def)
  moreover have "sim True False False False k c0 c0' c c'"
    using assms(1) by (rule sim_weaken) simp_all
  ultimately show ?thesis
    by simp
next
  case True
  from assms(5) have r: "pathData r' = pathData r" "owner r' = owner r" "selected r' = selected r"
    by (simp_all add: drawn_fields_def)
  define fillColor where "fillColor =
      (if truthy (owner r) \<and> truthy (ownerColors st (the (owner r)))
       then adjustColorForLand (the (ownerColors st (the (owner r)))) else land (theme st))"
  define sc where "sc = (if selected r then selectedBorder (theme st) else border (theme st))"
  define sw where "sw = (if selected r then selectedBorderWidth (theme st) else borderWidth (theme st))"
  define d where "d = the (pathData r)"
  have l: "renderRegion st c r =
      stroke_path d (set_lineWidth sw (set_strokeStyle (Color sc)
        (fill_path d (set_fillStyle (Color fillColor) c))))"
    using True by (simp add: renderRegion_def Let_def fillColor_def sc_def sw_def d_def)
  have l': "renderRegion st' c' r' =
      stroke_path d (set_lineWidth sw (set_strokeStyle (Color sc)
        (fill_path d (set_fillStyle (Color fillColor) c'))))"
    using True
    by (simp add: renderRegion_def Let_def fillColor_def sc_def sw_def d_def r
        assms(3) [symmetric] assms(4) [symmetric])
  from assms(2) have v: "parses c sc" "0 < sw"
    by (simp_all add: well_themed_def sc_def sw_def)
  have "sim True s w p k c0 c0' (fill_path d (set_fillStyle (Color fillColor) c))
      (fill_path d (set_fillStyle (Color fillColor) c'))"
    by (rule sim_fill_path, rule sim_set_fillStyle, rule assms(1))
  then have "sim True True w p k c0 c0'
      (set_strokeStyle (Color sc) (fill_path d (set_fillStyle (Color fillColor) c)))
      (set_strokeStyle (Color sc) (fill_path d (set_fillStyle (Color fillColor) c')))"
    by (rule sim_set_strokeStyle_color) (simp add: v)
  then have "sim True True True p k c0 c0'
      (set_lineWidth sw (set_strokeStyle (Color sc) (fill_path d (set_fillStyle (Color fillColor) c))))
      (set_lineWidth sw (set_strokeStyle (Color sc) (fill_path d (set_fillStyle (Color fillColor) c'))))"
    using v(2) by (rule sim_set_lineWidth)
  then have "sim True True True p k c0 c0' (renderRegion st c r) (renderRegion st' c' r')"
    unfolding l l' by (rule sim_stroke_path)
  then show ?thesis
    by (rule sim_weaken) simp_all
qed

lemma ice_edge_keeps [simp]:
  "parses (ice_edge w h c) = parses c" "transform (ice_edge w h c) = transform c"
  "saved (ice_edge w h c) = saved c"
  unfolding ice_edge_def by (simp_all add: foldl_keeps)

lemma ice_edge_sim:
  assumes "sim f s w p k c0 c0' c c'"
  shows "sim f s w p k c0 c0' (ice_edge wn h c) (ice_edge wn h c')"
  unfolding ice_edge_def using assms by (rule foldl_same) (rule sim_lineTo)

lemma north_cap_keeps [simp]:
  "parses (north_cap w h g c) = parses c" "transform (north_cap w h g c) = transform c"
  "saved (north_cap w h g c) = saved c"
  by (simp_all add: north_cap_def Let_def)

lemma north_cap_sim:
  assumes "sim f s w p k c0 c0' c c'"
  shows "sim True s w True k c0 c0' (north_cap wn hn g c) (north_cap wn hn g c')"
proof -
  let ?c2 = "\<lambda>c. set_fillStyle (Color ''rgba(200, 220, 240, 0.8)'')
      (fillRect 0 0 (real wn) (real hn * 0.15) (set_fillStyle (Gradient g) c))"
  have "sim True s w p k c0 c0' (?c2 c) (?c2 c')"
    by (rule sim_set_fillStyle, rule sim_fillRect, rule sim_set_fillStyle_gradient, rule assms)
  then have "sim True s w True k c0 c0' (moveTo 0 (real hn * 0.08) (beginPath (?c2 c)))
      (moveTo 0 (real hn * 0.08) (beginPath (?c2 c')))"
    by (intro sim_moveTo sim_beginPath)
  then show ?thesis
    unfolding north_cap_def Let_def
    by (intro sim_fill_current sim_closePath sim_lineTo ice_edge_sim)
qed

lemma addColorStops_parses:
  "parses c = parses c' \<Longrightarrow> addColorStops c l g = addColorStops c' l g"
  by (induction c l g rule: addColorStops.induct) simp_all

lemma addIceCaps_cases:
  obtains (north_fails) e where "northCapGradient (real h) c = Inl e" "addIceCaps w h c = (c, Some e)"
  | (south_fails) g e where "northCapGradient (real h) c = Inr g"
      "southCapGradient (real h) (north_cap w h g c) = Inl e"
      "addIceCaps w h c = (north_cap w h g c, Some e)"
  | (both) g g' where "northCapGradient (real h) c = Inr g"
      "southCapGradient (real h) (north_cap w h g c) = Inr g'"
      "addIceCaps w h c = (fillRect 0 (real h * 0.92) (real w) (real h * 0.08)
          (set_fillStyle (Gradient g') (north_cap w h g c)), None)"
proof (cases "northCapGradient (real h) c")
  case (Inl e)
  then show ?thesis
    by (intro north_fails [of e]) (simp_all only: addIceCaps_def sum.case)
next
  case (Inr g)
  show ?thesis
  proof (cases "southCapGradient (real h) (north_cap w h g c)")
    case (Inl e)
    with Inr show ?thesis
      by (intro south_fails [of g e]) (simp_all only: addIceCaps_def sum.case Let_def)
  next
    case g': (Inr g')
    with Inr show ?thesis
      by (intro both [of g g']) (simp_all only: addIceCaps_def sum.case Let_def)
  qed
qed

lemma addIceCaps_keeps [simp]:
  "parses (fst (addIceCaps w h c)) = parses c" "transform (fst (addIceCaps w h c)) = transform c"
  "saved (fst (addIceCaps w h c)) = saved c"
  by (cases rule: addIceCaps_cases [of h c w]; simp)+


lemma addIceCaps_eqs:
  "northCapGradient (real h) c = Inl e \<Longrightarrow> addIceCaps w h c = (c, Some e)"
  "northCapGradient (real h) c = Inr g \<Longrightarrow> southCapGradient (real h) (north_cap w h g c) = Inl e
     \<Longrightarrow> addIceCaps w h c = (north_cap w h g c, Some e)"
  "northCapGradient (real h) c = Inr g \<Longrightarrow> southCapGradient (real h) (north_cap w h g c) = Inr g'
     \<Longrightarrow> addIceCaps w h c = (fillRect 0 (real h * 0.92) (real w) (real h * 0.08)
          (set_fillStyle (Gradient g') (north_cap w h g c)), None)"
  by (simp_all only: addIceCaps_def sum.case Let_def)

lemma sim_parses: "sim f s w p k c0 c0' c c' \<Longrightarrow> parses c = parses c'"
  by (simp add: sim_def agree_def)

lemma sim_forget:
  assumes "sim f s w p k c0 c0' c c'"
  shows "sim False False False False False c0 c0' c c'"
  using assms by (rule sim_weaken) simp_all

lemma addIceCaps_sim:
  assumes "sim f s w p k c0 c0' c c'"
  shows "sim False False False False False c0 c0' (fst (addIceCaps wn hn c)) (fst (addIceCaps wn hn c'))
     \<and> snd (addIceCaps wn hn c) = snd (addIceCaps wn hn c')"
proof -
  have p: "parses c = parses c'"
    using assms by (rule sim_parses)
  have n: "northCapGradient (real hn) c' = northCapGradient (real hn) c"
    using p by (simp only: northCapGradient_def addColorStops_parses [of c c'])
  have s: "southCapGradient (real hn) (north_cap wn hn g c')
        = southCapGradient (real hn) (north_cap wn hn g c)" for g
    using p by (simp only: southCapGradient_def
        addColorStops_parses [of "north_cap wn hn g c" "north_cap wn hn g c'"] north_cap_keeps)
  show ?thesis
  proof (cases rule: addIceCaps_cases [of hn c wn])
    case (north_fails e)
    from north_fails(1) n have "addIceCaps wn hn c' = (c', Some e)"
      by (intro addIceCaps_eqs) simp
    with north_fails(2) sim_forget [OF assms] show ?thesis
      by simp
  next
    case (south_fails g e)
    from south_fails(1,2) n s have "addIceCaps wn hn c' = (north_cap wn hn g c', Some e)"
      by (intro addIceCaps_eqs) simp_all
    with south_fails(3) sim_forget [OF north_cap_sim [OF assms, of wn hn g]] show ?thesis
      by simp
  next
    case (both g g')
    from both(1,2) n s have "addIceCaps wn hn c' =
        (fillRect 0 (real hn * 0.92) (real wn) (real hn * 0.08)
          (set_fillStyle (Gradient g') (north_cap wn hn g c')), None)"
      by (intro addIceCaps_eqs) simp_all
    moreover have "sim False False False False False c0 c0'
        (fillRect 0 (real hn * 0.92) (real wn) (real hn * 0.08)
          (set_fillStyle (Gradient g') (north_cap wn hn g c)))
        (fillRect 0 (real hn * 0.92) (real wn) (real hn * 0.08)
          (set_fillStyle (Gradient g') (north_cap wn hn g c')))"
      by (rule sim_forget, rule sim_fillRect, rule sim_set_fillStyle_gradient,
          rule north_cap_sim, rule assms)
    ultimately show ?thesis
      using both(3) by (simp only: fst_conv snd_conv simp_thms)
  qed
qed

lemma addGridLines_keeps [simp]:
  "parses (addGridLines w h c) = parses c" "transform (addGridLines w h c) = transform c"
  "saved (addGridLines w h c) = saved c"
  by (simp_all add: addGridLines_def Let_def foldl_keeps)

lemma addGridLines_sim:
  assumes "sim f s w p k c0 c0' c c'" "parses c ''rgba(0, 255, 136, 0.1)''"
  shows "sim False False False False False c0 c0' (addGridLines wn hn c) (addGridLines wn hn c')"
proof -
  let ?Q = "sim f True True True k c0 c0'"
  have c1: "sim f True True p k c0 c0'
      (set_lineWidth 1 (set_strokeStyle (Color ''rgba(0, 255, 136, 0.1)'') c))
      (set_lineWidth 1 (set_strokeStyle (Color ''rgba(0, 255, 136, 0.1)'') c'))"
    by (rule sim_set_lineWidth, rule sim_set_strokeStyle_color, rule assms(1), rule assms(2)) simp
  have step: "sim f True True True k c0 c0'
      (stroke_current (lineTo x2 y2 (moveTo x1 y1 (beginPath d))))
      (stroke_current (lineTo x2 y2 (moveTo x1 y1 (beginPath d'))))"
    if "sim f True True q k c0 c0' d d'" for d d' x1 y1 x2 y2 q
    by (rule sim_stroke_current, rule sim_lineTo, rule sim_moveTo, rule sim_beginPath, rule that)
  define rows where "rows = (\<lambda>c i. stroke_current
      (lineTo (real wn) (real i * (real hn / 18)) (moveTo 0 (real i * (real hn / 18)) (beginPath c))))"
  define cols where "cols = (\<lambda>c i. stroke_current
      (lineTo (real i * (real wn / 36)) (real hn) (moveTo (real i * (real wn / 36)) 0 (beginPath c))))"
  have first: "sim f True True True k c0 c0'
      (rows (set_lineWidth 1 (set_strokeStyle (Color ''rgba(0, 255, 136, 0.1)'') c)) 0)
      (rows (set_lineWidth 1 (set_strokeStyle (Color ''rgba(0, 255, 136, 0.1)'') c')) 0)"
    unfolding rows_def by (rule step [OF c1])
  have [simp]: "[0..<19] = 0 # [1..<19]"
    by (simp add: upt_conv_Cons)
  let ?c1 = "set_lineWidth 1 (set_strokeStyle (Color ''rgba(0, 255, 136, 0.1)'') c)"
  let ?c1' = "set_lineWidth 1 (set_strokeStyle (Color ''rgba(0, 255, 136, 0.1)'') c')"
  have r: "?Q (foldl rows ?c1 [0..<19]) (foldl rows ?c1' [0..<19])"
  proof -
    have "?Q (foldl rows (rows ?c1 0) [1..<19]) (foldl rows (rows ?c1' 0) [1..<19])"
      using first by (rule foldl_same) (simp add: rows_def step)
    then show ?thesis
      by simp
  qed
  have "?Q (foldl cols (foldl rows ?c1 [0..<19]) [0..<37])
      (foldl cols (foldl rows ?c1' [0..<19]) [0..<37])"
    using r by (rule foldl_same) (simp add: cols_def step)
  then have "?Q (addGridLines wn hn c) (addGridLines wn hn c')"
    by (simp only: addGridLines_def Let_def rows_def cols_def)
  then show ?thesis
    by (rule sim_forget)
qed

lemma draw_continent_keeps [simp]:
  "parses (draw_continent w h c pts) = parses c" "transform (draw_continent w h c pts) = transform c"
  "saved (draw_continent w h c pts) = saved c"
  by (simp_all add: draw_continent_def Let_def foldl_keeps)

lemma draw_continent_sim:
  assumes "sim True True True p k c0 c0' c c'"
  shows "sim True True True True k c0 c0' (draw_continent w h c pts) (draw_continent w h c' pts)"
proof -
  have "sim True True True True k c0 c0'
      (moveTo (fst (hd pts) * w) (snd (hd pts) * h) (beginPath c))
      (moveTo (fst (hd pts) * w) (snd (hd pts) * h) (beginPath c'))"
    by (rule sim_moveTo, rule sim_beginPath, rule assms)
  then have "sim True True True True k c0 c0'
      (foldl (\<lambda>c p. lineTo (fst p * w) (snd p * h) c)
         (moveTo (fst (hd pts) * w) (snd (hd pts) * h) (beginPath c)) pts)
      (foldl (\<lambda>c p. lineTo (fst p * w) (snd p * h) c)
         (moveTo (fst (hd pts) * w) (snd (hd pts) * h) (beginPath c')) pts)"
    by (rule foldl_same) (rule sim_lineTo)
  then show ?thesis
    unfolding draw_continent_def Let_def
    by (intro sim_stroke_current sim_fill_current sim_closePath)
qed

lemma fallback_continents_keeps [simp]:
  "parses (fallback_continents st w h c) = parses c"
  "transform (fallback_continents st w h c) = transform c"
  by (simp_all add: fallback_continents_def Let_def foldl_keeps)

lemma fallback_continents_sim:
  assumes "sim f s w p k c0 c0' c c'" "well_themed (theme st) c" "theme st = theme st'"
  shows "sim True True True False k c0 c0'
     (fallback_continents st wn hn c) (fallback_continents st' wn hn c')"
proof -
  from assms(2) have v: "parses c (ocean (theme st))" "parses c (border (theme st))"
    by (simp_all add: well_themed_def)
  let ?c2 = "\<lambda>c. set_lineWidth 2 (set_strokeStyle (Color (border (theme st)))
      (set_fillStyle (Color (land (theme st)))
        (fillRect 0 0 (real wn) (real hn) (set_fillStyle (Color (ocean (theme st))) c))))"
  have "sim True s w p k c0 c0'
      (fillRect 0 0 (real wn) (real hn) (set_fillStyle (Color (ocean (theme st))) c))
      (fillRect 0 0 (real wn) (real hn) (set_fillStyle (Color (ocean (theme st))) c'))"
    by (rule sim_fillRect, rule sim_set_fillStyle_color, rule assms(1), rule v(1))
  then have "sim True s w p k c0 c0'
      (set_fillStyle (Color (land (theme st)))
        (fillRect 0 0 (real wn) (real hn) (set_fillStyle (Color (ocean (theme st))) c)))
      (set_fillStyle (Color (land (theme st)))
        (fillRect 0 0 (real wn) (real hn) (set_fillStyle (Color (ocean (theme st))) c')))"
    by (rule sim_set_fillStyle)
  then have "sim True True w p k c0 c0'
      (set_strokeStyle (Color (border (theme st))) (set_fillStyle (Color (land (theme st)))
        (fillRect 0 0 (real wn) (real hn) (set_fillStyle (Color (ocean (theme st))) c))))
      (set_strokeStyle (Color (border (theme st))) (set_fillStyle (Color (land (theme st)))
        (fillRect 0 0 (real wn) (real hn) (set_fillStyle (Color (ocean (theme st))) c'))))"
    by (rule sim_set_strokeStyle_color) (simp add: v(2))
  then have c2: "sim True True True p k c0 c0' (?c2 c) (?c2 c')"
    by (rule sim_set_lineWidth) simp
  have "\<exists>q. sim True True True q k c0 c0'
      (foldl (draw_continent (real wn) (real hn)) (?c2 c) continents)
      (foldl (draw_continent (real wn) (real hn)) (?c2 c') continents)"
    by (rule foldl_same [where Q = "\<lambda>c c'. \<exists>q. sim True True True q k c0 c0' c c'"])
      (use c2 draw_continent_sim in blast)+
  then obtain q where "sim True True True q k c0 c0'
      (fallback_continents st wn hn c) (fallback_continents st' wn hn c')"
    by (auto simp only: fallback_continents_def Let_def assms(3) [symmetric])
  then show ?thesis
    by (rule sim_weaken) simp_all
qed


lemma renderFallbackMap_eq:
  "renderFallbackMap st w h c =
     (if snd (addIceCaps w h (fallback_continents st w h c)) = None
      then (addGridLines w h (fst (addIceCaps w h (fallback_continents st w h c))), None)
      else addIceCaps w h (fallback_continents st w h c))"
  by (cases "addIceCaps w h (fallback_continents st w h c)")
    (auto simp: renderFallbackMap_def)

lemma renderFallbackMap_keeps [simp]:
  "parses (fst (renderFallbackMap st w h c)) = parses c"
  "transform (fst (renderFallbackMap st w h c)) = transform c"
  by (simp_all add: renderFallbackMap_eq)

lemma renderFallbackMap_sim:
  assumes "sim f s w p k c0 c0' c c'" "well_themed (theme st) c" "theme st = theme st'"
  shows "sim False False False False False c0 c0'
       (fst (renderFallbackMap st wn hn c)) (fst (renderFallbackMap st' wn hn c'))
     \<and> snd (renderFallbackMap st wn hn c) = snd (renderFallbackMap st' wn hn c')"
proof -
  note a = addIceCaps_sim [OF fallback_continents_sim [OF assms], of wn hn wn hn]
  have g: "parses (fst (addIceCaps wn hn (fallback_continents st wn hn c))) ''rgba(0, 255, 136, 0.1)''"
    using assms(2) by (simp add: well_themed_def)
  have "sim False False False False False c0 c0'
      (addGridLines wn hn (fst (addIceCaps wn hn (fallback_continents st wn hn c))))
      (addGridLines wn hn (fst (addIceCaps wn hn (fallback_continents st' wn hn c'))))"
    using conjunct1 [OF a] g by (rule addGridLines_sim)
  with a show ?thesis
    by (simp add: renderFallbackMap_eq)
qed

lemma render_regions_keeps [simp]:
  "parses (render_regions st cv el c) = parses c"
  "transform (render_regions st cv el c) = transform c"
proof -
  define x where "x = js_div (real (width cv)) (js_nth (case viewBox el of
      None \<Rightarrow> [Fin 0, Fin 0, Fin 2000, Fin 1000] | Some v \<Rightarrow> v) 2)"
  define y where "y = js_div (real (height cv)) (js_nth (case viewBox el of
      None \<Rightarrow> [Fin 0, Fin 0, Fin 2000, Fin 1000] | Some v \<Rightarrow> v) 3)"
  have e: "render_regions st cv el c =
      restore (foldl (renderRegion st) (scale x y (save c)) (map snd (regions st)))"
    by (simp add: render_regions_def Let_def x_def y_def)
  have "saved (foldl (renderRegion st) (scale x y (save c)) (map snd (regions st)))
      = saved (scale x y (save c))"
    by (rule foldl_keeps) simp
  then have s: "saved (foldl (renderRegion st) (scale x y (save c)) (map snd (regions st)))
      = (fillStyle c, strokeStyle c, lineWidth c, transform c) # saved c"
    by (simp add: save_def)
  show "parses (render_regions st cv el c) = parses c"
    unfolding e by (simp add: foldl_keeps)
  show "transform (render_regions st cv el c) = transform c"
    unfolding e by (simp add: restore_def s)
qed

lemma render_regions_sim:
  assumes "sim True s w p k c0 c0' c c'" "well_themed (theme st) c"
    and "theme st = theme st'" "ownerColors st = ownerColors st'"
    and "map (\<lambda>kr. drawn_fields (snd kr)) (regions st) = map (\<lambda>kr. drawn_fields (snd kr)) (regions st')"
    and "width cv = width cv'" "height cv = height cv'"
  shows "sim True False False False False c0 c0'
     (render_regions st cv el c) (render_regions st' cv' el c')"
proof -
  define x where "x = js_div (real (width cv)) (js_nth (case viewBox el of
      None \<Rightarrow> [Fin 0, Fin 0, Fin 2000, Fin 1000] | Some v \<Rightarrow> v) 2)"
  define y where "y = js_div (real (height cv)) (js_nth (case viewBox el of
      None \<Rightarrow> [Fin 0, Fin 0, Fin 2000, Fin 1000] | Some v \<Rightarrow> v) 3)"
  have e: "render_regions st cv el c =
      restore (foldl (renderRegion st) (scale x y (save c)) (map snd (regions st)))"
    by (simp add: render_regions_def Let_def x_def y_def)
  have e': "render_regions st' cv' el c' =
      restore (foldl (renderRegion st') (scale x y (save c')) (map snd (regions st')))"
    by (simp add: render_regions_def Let_def x_def y_def assms(6) [symmetric] assms(7) [symmetric])
  have r: "list_all2 (\<lambda>r r'. drawn_fields r = drawn_fields r')
      (map snd (regions st)) (map snd (regions st'))"
  proof -
    have "map drawn_fields (map snd (regions st)) = map drawn_fields (map snd (regions st'))"
      using assms(5) by (simp add: comp_def)
    then show ?thesis
      by (simp only: list.rel_eq [symmetric] list.rel_map)
  qed
  let ?Q = "\<lambda>c c'. sim True False False False True c0 c0' c c' \<and> well_themed (theme st) c"
  have start: "?Q (scale x y (save c)) (scale x y (save c'))"
  proof
    have "sim True s w p True c0 c0' (scale x y (save c)) (scale x y (save c'))"
      by (rule sim_scale, rule sim_save, rule assms(1))
    then show "sim True False False False True c0 c0' (scale x y (save c)) (scale x y (save c'))"
      by (rule sim_weaken) simp_all
    show "well_themed (theme st) (scale x y (save c))"
      using assms(2) by (simp add: well_themed_def)
  qed
  have "?Q (foldl (renderRegion st) (scale x y (save c)) (map snd (regions st)))
      (foldl (renderRegion st') (scale x y (save c')) (map snd (regions st')))"
    using r start
  proof (rule foldl_related)
    fix a b d d'
    assume ab: "drawn_fields a = drawn_fields b" and q: "?Q d d'"
    have "sim True False False False True c0 c0' (renderRegion st d a) (renderRegion st' d' b)"
      using conjunct1 [OF q] conjunct2 [OF q] assms(3,4) ab by (rule renderRegion_sim)
    moreover have "well_themed (theme st) (renderRegion st d a)"
      using conjunct2 [OF q] by (simp add: well_themed_def)
    ultimately show "?Q (renderRegion st d a) (renderRegion st' d' b)"
      by simp
  qed
  then have "sim True False False False True c0 c0'
      (foldl (renderRegion st) (scale x y (save c)) (map snd (regions st)))
      (foldl (renderRegion st') (scale x y (save c')) (map snd (regions st')))"
    by (rule conjunct1)
  then show ?thesis
    unfolding e e' by (rule sim_restore)
qed


lemma renderToCanvas_eqs:
  "textureCanvas st = None \<Longrightarrow> renderToCanvas st = (st, Some TypeError)"
  "textureCanvas st = Some cv \<Longrightarrow> svgDoc st = None \<Longrightarrow>
     renderToCanvas st =
       (with_ctx st cv (fst (renderFallbackMap st (width cv) (height cv)
          (fillRect 0 0 (real (width cv)) (real (height cv))
            (set_fillStyle (Color (ocean (theme st))) (ctx cv))))),
        snd (renderFallbackMap st (width cv) (height cv)
          (fillRect 0 0 (real (width cv)) (real (height cv))
            (set_fillStyle (Color (ocean (theme st))) (ctx cv)))))"
  "textureCanvas st = Some cv \<Longrightarrow> svgDoc st = Some doc \<Longrightarrow> svg doc = None \<Longrightarrow>
     renderToCanvas st =
       (with_ctx st cv (fillRect 0 0 (real (width cv)) (real (height cv))
          (set_fillStyle (Color (ocean (theme st))) (ctx cv))), Some TypeError)"
  "textureCanvas st = Some cv \<Longrightarrow> svgDoc st = Some doc \<Longrightarrow> svg doc = Some el \<Longrightarrow>
     addIceCaps (width cv) (height cv) (render_regions st cv el
          (fillRect 0 0 (real (width cv)) (real (height cv))
            (set_fillStyle (Color (ocean (theme st))) (ctx cv)))) = (c5, Some e) \<Longrightarrow>
     renderToCanvas st = (with_ctx st cv c5, Some e)"
  "textureCanvas st = Some cv \<Longrightarrow> svgDoc st = Some doc \<Longrightarrow> svg doc = Some el \<Longrightarrow>
     addIceCaps (width cv) (height cv) (render_regions st cv el
          (fillRect 0 0 (real (width cv)) (real (height cv))
            (set_fillStyle (Color (ocean (theme st))) (ctx cv)))) = (c5, None) \<Longrightarrow>
     renderToCanvas st =
       ((with_ctx st cv (addGridLines (width cv) (height cv) c5))
          \<lparr>texture := map_option (\<lambda>_. True) (texture st)\<rparr>, None)"
  by (simp_all add: renderToCanvas_def Let_def split: prod.split)

lemma renderToCanvas_cases:
  obtains (no_canvas) "textureCanvas st = None" "renderToCanvas st = (st, Some TypeError)"
  | (drawn) cv cf where "textureCanvas st = Some cv"
      "fst (renderToCanvas st) = with_ctx st cv cf
       \<or> fst (renderToCanvas st) = (with_ctx st cv cf)\<lparr>texture := map_option (\<lambda>_. True) (texture st)\<rparr>"
      "parses cf = parses (ctx cv)" "transform cf = transform (ctx cv)"
proof (cases "textureCanvas st")
  case None
  then show ?thesis
    by (intro no_canvas) (simp_all add: renderToCanvas_eqs)
next
  case (Some cv)
  let ?o = "fillRect 0 0 (real (width cv)) (real (height cv))
      (set_fillStyle (Color (ocean (theme st))) (ctx cv))"
  show ?thesis
  proof (cases "svgDoc st")
    case None
    show ?thesis
      by (rule drawn [OF Some, of "fst (renderFallbackMap st (width cv) (height cv) ?o)"])
        (simp_all add: renderToCanvas_eqs(2) [OF Some None])
  next
    case doc: (Some doc)
    show ?thesis
    proof (cases "svg doc")
      case None
      show ?thesis
        by (rule drawn [OF Some, of ?o]) (simp_all add: renderToCanvas_eqs(3) [OF Some doc None])
    next
      case el: (Some el)
      obtain c5 e where r: "addIceCaps (width cv) (height cv) (render_regions st cv el ?o) = (c5, e)"
        by (cases "addIceCaps (width cv) (height cv) (render_regions st cv el ?o)")
      have "parses (fst (addIceCaps (width cv) (height cv) (render_regions st cv el ?o)))
          = parses (ctx cv)"
        "transform (fst (addIceCaps (width cv) (height cv) (render_regions st cv el ?o)))
          = transform (ctx cv)"
        by simp_all
      then have k: "parses c5 = parses (ctx cv)" "transform c5 = transform (ctx cv)"
        by (simp_all only: r fst_conv)
      show ?thesis
      proof (cases e)
        case None
        show ?thesis
          by (rule drawn [OF Some, of "addGridLines (width cv) (height cv) c5"])
            (simp_all add: renderToCanvas_eqs(5) [OF Some doc el r [unfolded None]] k)
      next
        case (Some err)
        show ?thesis
          by (rule drawn [OF \<open>textureCanvas st = Some cv\<close>, of c5])
            (simp_all add: renderToCanvas_eqs(4) [OF \<open>textureCanvas st = Some cv\<close> doc el r [unfolded Some]] k)
      qed
    qed
  qed
qed

lemma renderToCanvas_keeps:
  "regions (fst (renderToCanvas st)) = regions st" "theme (fst (renderToCanvas st)) = theme st"
  "ownerColors (fst (renderToCanvas st)) = ownerColors st"
  "svgDoc (fst (renderToCanvas st)) = svgDoc st"
  "same_canvas (textureCanvas st) (textureCanvas (fst (renderToCanvas st)))"
  by (cases st rule: renderToCanvas_cases; auto simp: with_ctx_def same_canvas_def)+

lemma render_noninterference:
  assumes "same_inputs s s'" "themed s"
  shows "emitted s = emitted s' \<and> snd (renderToCanvas s) = snd (renderToCanvas s')"
proof (cases "textureCanvas s")
  case None
  with assms(1) have "textureCanvas s' = None"
    by (auto simp: same_inputs_def same_canvas_def split: option.splits)
  with None show ?thesis
    by (simp add: emitted_def canvas_painted_def renderToCanvas_eqs)
next
  case (Some cv)
  with assms(1) obtain cv' where cv': "textureCanvas s' = Some cv'"
    and wh: "width cv' = width cv" "height cv' = height cv"
    and pt: "parses (ctx cv) = parses (ctx cv')" "transform (ctx cv) = transform (ctx cv')"
    by (auto simp: same_inputs_def same_canvas_def split: option.splits)
  from assms(1) have inp: "theme s = theme s'" "ownerColors s = ownerColors s'" "svgDoc s' = svgDoc s"
    "map (\<lambda>kr. drawn_fields (snd kr)) (regions s) = map (\<lambda>kr. drawn_fields (snd kr)) (regions s')"
    by (simp_all add: same_inputs_def)
  from assms(2) Some have th: "well_themed (theme s) (ctx cv)"
    by (simp add: themed_def)
  define c where "c = ctx cv"
  define c' where "c' = ctx cv'"
  define w where "w = width cv"
  define h where "h = height cv"
  define o1 where "o1 = fillRect 0 0 (real w) (real h) (set_fillStyle (Color (ocean (theme s))) c)"
  define o2 where "o2 = fillRect 0 0 (real w) (real h) (set_fillStyle (Color (ocean (theme s))) c')"
  have tho: "well_themed (theme s) o1"
    using th by (simp add: well_themed_def o1_def c_def)
  have so: "sim True False False False False c c' o1 o2"
    unfolding o1_def o2_def
    by (rule sim_fillRect, rule sim_set_fillStyle_color, rule sim_start)
      (use pt th in \<open>simp_all add: c_def c'_def well_themed_def\<close>)
  have "\<exists>cf cf'. canvas_painted (fst (renderToCanvas s)) = painted cf
      \<and> canvas_painted (fst (renderToCanvas s')) = painted cf'
      \<and> sim False False False False False c c' cf cf'
      \<and> snd (renderToCanvas s) = snd (renderToCanvas s')"
  proof (cases "svgDoc s")
    case None
    note e = renderToCanvas_eqs(2) [OF Some None]
      renderToCanvas_eqs(2) [OF cv' None [folded inp(3)]]
    note f = renderFallbackMap_sim [OF so tho inp(1), of w h]
    show ?thesis
      by (intro exI [of _ "fst (renderFallbackMap s w h o1)"]
          exI [of _ "fst (renderFallbackMap s' w h o2)"])
        (use f in \<open>simp add: e canvas_painted_def with_ctx_def wh inp(1) [symmetric]
          o1_def o2_def c_def c'_def w_def h_def\<close>)
  next
    case doc: (Some doc)
    show ?thesis
    proof (cases "svg doc")
      case None
      note e = renderToCanvas_eqs(3) [OF Some doc None]
        renderToCanvas_eqs(3) [OF cv' doc [folded inp(3)] None]
      show ?thesis
        by (intro exI [of _ o1] exI [of _ o2])
          (use sim_forget [OF so] in \<open>simp add: e canvas_painted_def with_ctx_def wh
            inp(1) [symmetric] o1_def o2_def c_def c'_def w_def h_def\<close>)
    next
      case el: (Some el)
      have rr: "sim True False False False False c c'
          (render_regions s cv el o1) (render_regions s' cv' el o2)"
        using so tho inp(1,2,4) wh [symmetric] by (rule render_regions_sim)
      note ice = addIceCaps_sim [OF rr, of w h]
      obtain c5 e where r: "addIceCaps w h (render_regions s cv el o1) = (c5, e)"
        by (cases "addIceCaps w h (render_regions s cv el o1)")
      obtain c6 where r': "addIceCaps w h (render_regions s' cv' el o2) = (c6, e)"
        using ice r by (cases "addIceCaps w h (render_regions s' cv' el o2)") simp
      have s5: "sim False False False False False c c' c5 c6"
        using ice by (simp add: r r')
      have "parses (fst (addIceCaps w h (render_regions s cv el o1))) = parses c"
        by (simp add: o1_def)
      then have p5: "parses c5 = parses c"
        by (simp only: r fst_conv)
      show ?thesis
      proof (cases e)
        case None
        note q = renderToCanvas_eqs(5) [OF Some doc el r [unfolded None o1_def c_def w_def h_def]]
          renderToCanvas_eqs(5) [OF cv' doc [folded inp(3)] el,
            OF r' [unfolded None o2_def c'_def w_def h_def inp(1) wh [symmetric]]]
        have "sim False False False False False c c' (addGridLines w h c5) (addGridLines w h c6)"
          using s5 by (rule addGridLines_sim) (use th p5 in \<open>simp add: well_themed_def c_def\<close>)
        then show ?thesis
          by (intro exI [of _ "addGridLines w h c5"] exI [of _ "addGridLines w h c6"])
            (simp add: q canvas_painted_def with_ctx_def wh w_def h_def)
      next
        case (Some err)
        note q = renderToCanvas_eqs(4) [OF \<open>textureCanvas s = Some cv\<close> doc el
            r [unfolded Some o1_def c_def w_def h_def]]
          renderToCanvas_eqs(4) [OF cv' doc [folded inp(3)] el,
            OF r' [unfolded Some o2_def c'_def w_def h_def inp(1) wh [symmetric]]]
        show ?thesis
          by (intro exI [of _ c5] exI [of _ c6])
            (use s5 in \<open>simp add: q canvas_painted_def with_ctx_def\<close>)
      qed
    qed
  qed
  then obtain cf cf' where f: "canvas_painted (fst (renderToCanvas s)) = painted cf"
    "canvas_painted (fst (renderToCanvas s')) = painted cf'"
    and sf: "sim False False False False False c c' cf cf'"
    and er: "snd (renderToCanvas s) = snd (renderToCanvas s')"
    by blast
  from sf obtain e where "painted cf = painted c @ e" "painted cf' = painted c' @ e"
    by (auto simp: sim_def agree_def)
  moreover have "emitted s = drop (length (painted c)) (painted cf)"
    unfolding emitted_def f(1) by (simp add: canvas_painted_def Some c_def)
  moreover have "emitted s' = drop (length (painted c')) (painted cf')"
    unfolding emitted_def f(2) by (simp add: canvas_painted_def cv' c'_def)
  ultimately have "emitted s = emitted s'"
    by simp
  with er show ?thesis
    by simp
qed


lemma themed_renderToCanvas:
  assumes "themed s"
  shows "themed (fst (renderToCanvas s))"
  using assms
  by (cases s rule: renderToCanvas_cases) (auto simp: themed_def with_ctx_def well_themed_def)

section \<open>Selection and ownership of regions\<close>

lemma regions_renderToCanvas: "regions (fst (renderToCanvas s)) = regions s"
  by (rule renderToCanvas_keeps)

lemma map_of_deselect_all:
  "map_of (deselect_all rs) k = map_option (\<lambda>r. r\<lparr>selected := False\<rparr>) (map_of rs k)"
  by (induction rs) (auto simp: deselect_all_def)

lemma map_of_modify:
  "map_of (modify k f rs) k' = (if k' = k then map_option f (map_of rs k) else map_of rs k')"
  by (induction rs) auto

lemma filter_deselect_all: "filter (\<lambda>kr. selected (snd kr)) (deselect_all rs) = []"
  by (induction rs) (auto simp: deselect_all_def)

lemma deselect_all_none_selected:
  "filter (\<lambda>kr. selected (snd kr)) rs = [] \<Longrightarrow> deselect_all rs = rs"
  by (induction rs) (auto simp: deselect_all_def split: if_splits)

lemma length_filter_modify:
  "length (filter P (modify k f rs)) \<le> Suc (length (filter P rs))"
  by (induction rs) auto

lemma regions_selectRegion:
  "regions (fst (selectRegion s k)) =
     (case map_of (regions s) k of
        None \<Rightarrow> deselect_all (regions s)
      | Some r \<Rightarrow> modify k (\<lambda>r. r\<lparr>selected := True\<rparr>) (deselect_all (regions s)))"
proof (cases "map_of (regions s) k")
  case None
  then show ?thesis
    by (simp add: selectRegion_def map_of_deselect_all)
next
  case (Some r)
  let ?s2 = "s\<lparr>regions := modify k (\<lambda>r. r\<lparr>selected := True\<rparr>) (deselect_all (regions s))\<rparr>"
  have "regions (fst (selectRegion s k)) = regions (fst (renderToCanvas ?s2))"
    using Some by (simp add: selectRegion_def map_of_deselect_all split: prod.split option.split)
  then show ?thesis
    using Some by (simp add: regions_renderToCanvas)
qed

lemma selected_count_selectRegion: "selected_count (fst (selectRegion s k)) \<le> 1"
proof -
  have "length (filter (\<lambda>kr. selected (snd kr))
      (modify k (\<lambda>r. r\<lparr>selected := True\<rparr>) (deselect_all (regions s)))) \<le> 1"
    using length_filter_modify [of "\<lambda>kr. selected (snd kr)" k _ "deselect_all (regions s)"]
    by (simp add: filter_deselect_all)
  then show ?thesis
    by (simp add: selected_count_def regions_selectRegion filter_deselect_all split: option.split)
qed

lemma select_each_snoc: "select_each s (ids @ [k]) = fst (selectRegion (select_each s ids) k)"
  by (simp add: select_each_def)

lemma selected_count_select_each:
  assumes "ids \<noteq> [] \<or> selected_count s \<le> 1"
  shows "selected_count (select_each s ids) \<le> 1"
proof (cases ids rule: rev_cases)
  case Nil
  with assms show ?thesis
    by (simp add: select_each_def)
next
  case (snoc ks k)
  then show ?thesis
    by (simp only: select_each_snoc selected_count_selectRegion)
qed

text \<open>
  Claim C5. For two different region ids \<open>A\<close> and \<open>B\<close> of the catalogue, after selecting \<open>A\<close>
  and then \<open>B\<close> the flag of \<open>A\<close> is false and the flag of \<open>B\<close> is true. After any sequence of
  selection calls at most one region has its flag set: after at least one call whatever the
  flags were before, and after no call if at most one was set before. This holds also when a
  call throws while rendering, since the flags are written first.
\<close>

theorem selection_exclusive:
  "(A \<noteq> B \<and> map_of (regions s) A \<noteq> None \<and> map_of (regions s) B \<noteq> None \<longrightarrow>
      map_option selected (map_of (regions (select_each s [A, B])) A) = Some False
      \<and> map_option selected (map_of (regions (select_each s [A, B])) B) = Some True)
   \<and> (ids \<noteq> [] \<or> selected_count s \<le> 1 \<longrightarrow> selected_count (select_each s ids) \<le> 1)"
proof (intro conjI impI)
  assume h: "A \<noteq> B \<and> map_of (regions s) A \<noteq> None \<and> map_of (regions s) B \<noteq> None"
  let ?s1 = "fst (selectRegion s A)"
  have e: "select_each s [A, B] = fst (selectRegion ?s1 B)"
    by (simp add: select_each_def)
  from h obtain a b where ab: "map_of (regions s) A = Some a" "map_of (regions s) B = Some b"
    by auto
  have r1: "map_of (regions ?s1) B = Some (b\<lparr>selected := False\<rparr>)"
    "map_of (regions ?s1) A = Some (a\<lparr>selected := True\<rparr>)"
    using h ab by (simp_all add: regions_selectRegion map_of_modify map_of_deselect_all)
  show "map_option selected (map_of (regions (select_each s [A, B])) A) = Some False"
    unfolding e using h r1 by (simp add: regions_selectRegion map_of_modify map_of_deselect_all)
  show "map_option selected (map_of (regions (select_each s [A, B])) B) = Some True"
    unfolding e using h r1 by (simp add: regions_selectRegion map_of_modify map_of_deselect_all)
next
  assume "ids \<noteq> [] \<or> selected_count s \<le> 1"
  then show "selected_count (select_each s ids) \<le> 1"
    by (rule selected_count_select_each)
qed

theorem selection_exclusive_witness:
  "map_option selected (map_of (regions (select_each globe_AB [''A'', ''B''])) ''A'') = Some False
   \<and> map_option selected (map_of (regions (select_each globe_AB [''A'', ''B''])) ''B'') = Some True
   \<and> selected_count (select_each globe_AB [''A'', ''B'']) \<le> 1"
proof -
  have h: "''A'' \<noteq> ''B'' \<and> map_of (regions globe_AB) ''A'' \<noteq> None
      \<and> map_of (regions globe_AB) ''B'' \<noteq> None"
    by (simp add: globe_AB_def)
  have n: "[''A'', ''B''] \<noteq> [] \<or> selected_count globe_AB \<le> 1"
    by simp
  note t = selection_exclusive [where A = "''A''" and B = "''B''" and s = globe_AB
      and ids = "[''A'', ''B'']"]
  from mp [OF conjunct1 [OF t] h] mp [OF conjunct2 [OF t] n] show ?thesis
    by simp
qed




section \<open>Determinism of rendering\<close>



end
